theory Spec2Isabelle
  imports Main "HOL-Library.Word"
begin

unbundle bit_operations_syntax

section \<open>Strings\<close>

text \<open>
  The client manipulates JavaScript strings.  A string is modelled as a \<^typ>\<open>string\<close>, each
  \<^typ>\<open>char\<close> standing for the code unit of the same number (U+0000 to U+00FF).  The string
  methods the client calls are given below with their ECMAScript meaning on that range.
\<close>

definition isWhiteSpace :: "char \<Rightarrow> bool" where
  \<comment> \<open>ECMAScript WhiteSpace and LineTerminator code points below U+0100:
      TAB, LF, VT, FF, CR, SP and NBSP.\<close>
  "isWhiteSpace c = ((of_char c :: nat) \<in> {9, 10, 11, 12, 13, 32, 160})"

definition trim :: "string \<Rightarrow> string" where
  \<comment> \<open>\<^verbatim>\<open>String.prototype.trim\<close>\<close>
  "trim s = rev (dropWhile isWhiteSpace (rev (dropWhile isWhiteSpace s)))"

definition replaceBackslashes :: "string \<Rightarrow> string" where
  \<comment> \<open>\<^verbatim>\<open>.replace(/\\/g, "/")\<close>\<close>
  "replaceBackslashes s = map (\<lambda>c. if c = CHR 0x5C then CHR ''/'' else c) s"

definition stripLeadingSlashes :: "string \<Rightarrow> string" where
  \<comment> \<open>\<^verbatim>\<open>.replace(/^\/+/, "")\<close>\<close>
  "stripLeadingSlashes s = dropWhile (\<lambda>c. c = CHR ''/'') s"

function collapseSlashes :: "string \<Rightarrow> string" where
  \<comment> \<open>\<^verbatim>\<open>.replace(/\/+/g, "/")\<close>: every maximal run of slashes becomes one slash.\<close>
  "collapseSlashes [] = []"
| "collapseSlashes (c # s) =
     (if c = CHR ''/'' then CHR ''/'' # collapseSlashes (dropWhile (\<lambda>c. c = CHR ''/'') s)
      else c # collapseSlashes s)"
  by pat_completeness auto
termination
  by (relation "measure length") (auto simp: less_Suc_eq_le length_dropWhile_le)

definition startsWith :: "string \<Rightarrow> string \<Rightarrow> bool" where
  \<comment> \<open>\<^verbatim>\<open>s.startsWith(t)\<close>\<close>
  "startsWith s t = (take (length t) s = t)"

definition endsWith :: "string \<Rightarrow> string \<Rightarrow> bool" where
  \<comment> \<open>\<^verbatim>\<open>s.endsWith(t)\<close>\<close>
  "endsWith s t = (length t \<le> length s \<and> drop (length s - length t) s = t)"

definition toLowerCaseChar :: "char \<Rightarrow> char" where
  \<comment> \<open>Unicode lower-case mapping on U+0000 to U+00FF: A to Z, and the Latin-1 capitals
      U+00C0 to U+00DE except the multiplication sign U+00D7.\<close>
  "toLowerCaseChar c =
     (let n = (of_char c :: nat)
      in if (65 \<le> n \<and> n \<le> 90) \<or> (192 \<le> n \<and> n \<le> 222 \<and> n \<noteq> 215)
         then char_of (n + 32) else c)"

definition toLowerCase :: "string \<Rightarrow> string" where
  \<comment> \<open>\<^verbatim>\<open>String.prototype.toLowerCase\<close>\<close>
  "toLowerCase s = map toLowerCaseChar s"

fun includesStr :: "string \<Rightarrow> string \<Rightarrow> bool" where
  \<comment> \<open>\<^verbatim>\<open>s.includes(t)\<close>: \<open>t\<close> occurs in \<open>s\<close> as a contiguous substring.\<close>
  "includesStr [] t = (t = [])"
| "includesStr (c # s) t = (startsWith (c # s) t \<or> includesStr s t)"

section \<open>Errors\<close>

datatype error =
    Error string  \<comment> \<open>\<^verbatim>\<open>new Error(message)\<close>, thrown by the client itself\<close>
  | TypeError     \<comment> \<open>raised by the engine, e.g. on reading a property of \<^verbatim>\<open>null\<close>\<close>
  | Rejected string
      \<comment> \<open>a failure reported by a collaborator (transport, file system, JSON decoder)\<close>

section \<open>Client configuration\<close>

record client =
  apiAccessKey :: string
  storageZoneName :: string
  baseAddress :: string

definition getBaseAddress :: "string \<Rightarrow> string" where
  "getBaseAddress mainRegion =
     (if mainRegion = '''' \<or> toLowerCase mainRegion = ''de''
      then ''https://storage.bunnycdn.com/''
      else ''https://'' @ mainRegion @ ''.storage.bunnycdn.com/'')"

definition BunnyCDNStorage :: "string \<Rightarrow> string \<Rightarrow> string \<Rightarrow> client" where
  \<comment> \<open>the constructor; the default region \<^verbatim>\<open>"de"\<close> is passed explicitly\<close>
  "BunnyCDNStorage zone key mainRegion =
     \<lparr>apiAccessKey = key, storageZoneName = zone, baseAddress = getBaseAddress mainRegion\<rparr>"

definition normalizePath :: "client \<Rightarrow> string \<Rightarrow> bool \<Rightarrow> error + string" where
  "normalizePath this path isDirectory =
     (let path1 = stripLeadingSlashes (replaceBackslashes (trim path))
      in if \<not> startsWith path1 (storageZoneName this @ ''/'')
         then Inl (Error (''Path validation failed. File path must begin with /''
                          @ storageZoneName this @ ''/.''))
         else let path2 = (if isDirectory
                           then (if endsWith path1 ''/'' then path1 else path1 @ ''/'')
                           else path1)
              in Inr (collapseSlashes path2))"

definition mapResponseToException :: "client \<Rightarrow> nat \<Rightarrow> string \<Rightarrow> error" where
  "mapResponseToException this statusCode path =
     (if statusCode = 404 then Error (''File not found: '' @ path)
      else if statusCode = 400 then Error ''Unable to upload file. Invalid path specified''
      else if statusCode = 401
        then Error (''Unauthorized access to storage zone: '' @ storageZoneName this)
      else Error ''An unknown error has occurred during the request.'')"

section \<open>SHA-256\<close>

text \<open>
  \<^verbatim>\<open>Checksum.generate\<close> relies on the platform's \<^verbatim>\<open>crypto.createHash("sha256")\<close>.  The hash is
  given here as FIPS 180-4 defines it, on bytes, with the digest printed in lower-case
  hexadecimal as \<^verbatim>\<open>digest("hex")\<close> does.
\<close>

type_synonym byte = "8 word"
type_synonym word32 = "32 word"
type_synonym sha_state = "word32 \<times> word32 \<times> word32 \<times> word32 \<times> word32 \<times> word32 \<times> word32 \<times> word32"

definition sha256_K :: "word32 list" where
  \<comment> \<open>the round constants: the first 32 bits of the fractional parts of the cube roots of
      the first 64 primes\<close>
  "sha256_K =
    [1116352408, 1899447441, 3049323471, 3921009573, 961987163, 1508970993,
     2453635748, 2870763221, 3624381080, 310598401, 607225278, 1426881987,
     1925078388, 2162078206, 2614888103, 3248222580, 3835390401, 4022224774,
     264347078, 604807628, 770255983, 1249150122, 1555081692, 1996064986,
     2554220882, 2821834349, 2952996808, 3210313671, 3336571891, 3584528711,
     113926993, 338241895, 666307205, 773529912, 1294757372, 1396182291,
     1695183700, 1986661051, 2177026350, 2456956037, 2730485921, 2820302411,
     3259730800, 3345764771, 3516065817, 3600352804, 4094571909, 275423344,
     430227734, 506948616, 659060556, 883997877, 958139571, 1322822218,
     1537002063, 1747873779, 1955562222, 2024104815, 2227730452, 2361852424,
     2428436474, 2756734187, 3204031479, 3329325298]"

definition sha256_H0 :: sha_state where
  \<comment> \<open>the initial hash value: the first 32 bits of the fractional parts of the square roots
      of the first 8 primes\<close>
  "sha256_H0 =
    (1779033703, 3144134277, 1013904242, 2773480762,
     1359893119, 2600822924, 528734635, 1541459225)"

definition Ch :: "word32 \<Rightarrow> word32 \<Rightarrow> word32 \<Rightarrow> word32" where
  "Ch x y z = (x AND y) XOR (NOT x AND z)"
definition Maj :: "word32 \<Rightarrow> word32 \<Rightarrow> word32 \<Rightarrow> word32" where
  "Maj x y z = (x AND y) XOR (x AND z) XOR (y AND z)"
definition bsig0 :: "word32 \<Rightarrow> word32" where
  "bsig0 x = word_rotr 2 x XOR word_rotr 13 x XOR word_rotr 22 x"
definition bsig1 :: "word32 \<Rightarrow> word32" where
  "bsig1 x = word_rotr 6 x XOR word_rotr 11 x XOR word_rotr 25 x"
definition ssig0 :: "word32 \<Rightarrow> word32" where
  "ssig0 x = word_rotr 7 x XOR word_rotr 18 x XOR drop_bit 3 x"
definition ssig1 :: "word32 \<Rightarrow> word32" where
  "ssig1 x = word_rotr 17 x XOR word_rotr 19 x XOR drop_bit 10 x"

definition sha256_pad :: "byte list \<Rightarrow> byte list" where
  "sha256_pad m =
     m @ [0x80] @ replicate ((119 - length m mod 64) mod 64) 0
       @ map (\<lambda>i. ucast (drop_bit (8 * i) (of_nat (8 * length m) :: 64 word))) [7, 6, 5, 4, 3, 2, 1, 0]"

fun be32 :: "byte list \<Rightarrow> word32 list" where
  "be32 (a # b # c # d # r) =
     (push_bit 24 (ucast a) OR push_bit 16 (ucast b) OR push_bit 8 (ucast c) OR ucast d) # be32 r"
| "be32 _ = []"

fun schedule :: "nat \<Rightarrow> word32 list \<Rightarrow> word32 list" where
  "schedule 0 w = w"
| "schedule (Suc n) w =
     (let t = length w
      in schedule n (w @ [ssig1 (w ! (t - 2)) + w ! (t - 7) + ssig0 (w ! (t - 15)) + w ! (t - 16)]))"

fun sha256_round :: "word32 \<times> word32 \<Rightarrow> sha_state \<Rightarrow> sha_state" where
  "sha256_round (k, w) (a, b, c, d, e, f, g, h) =
     (let T1 = h + bsig1 e + Ch e f g + k + w;
          T2 = bsig0 a + Maj a b c
      in (T1 + T2, a, b, c, d + T1, e, f, g))"

fun sha256_add :: "sha_state \<Rightarrow> sha_state \<Rightarrow> sha_state" where
  "sha256_add (a, b, c, d, e, f, g, h) (a', b', c', d', e', f', g', h') =
     (a + a', b + b', c + c', d + d', e + e', f + f', g + g', h + h')"

definition sha256_compress :: "byte list \<Rightarrow> sha_state \<Rightarrow> sha_state" where
  "sha256_compress block H =
     sha256_add H (fold sha256_round (zip sha256_K (schedule 48 (be32 block))) H)"

definition sha256_blocks :: "byte list \<Rightarrow> byte list list" where
  "sha256_blocks bs = map (\<lambda>i. take 64 (drop (64 * i) bs)) [0 ..< length bs div 64]"

definition sha256 :: "byte list \<Rightarrow> sha_state" where
  "sha256 m = fold sha256_compress (sha256_blocks (sha256_pad m)) sha256_H0"

definition hexDigit :: "nat \<Rightarrow> char" where
  "hexDigit n = ''0123456789abcdef'' ! n"

definition hex32 :: "word32 \<Rightarrow> string" where
  "hex32 w = map (\<lambda>i. hexDigit (unat (drop_bit (4 * i) w AND 0xF))) [7, 6, 5, 4, 3, 2, 1, 0]"

fun sha256_hex_of :: "sha_state \<Rightarrow> string" where
  "sha256_hex_of (a, b, c, d, e, f, g, h) =
     hex32 a @ hex32 b @ hex32 c @ hex32 d @ hex32 e @ hex32 f @ hex32 g @ hex32 h"

definition sha256_hex :: "byte list \<Rightarrow> string" where
  "sha256_hex m = sha256_hex_of (sha256 m)"


section \<open>Streams and the checksum generator\<close>

datatype readable = Readable (chunks: "byte list list") (failure: "error option")
  \<comment> \<open>a readable byte stream: it emits its chunks in order, then either ends
      (\<open>failure = None\<close>) or emits an error\<close>

definition bufferStream :: "readable \<Rightarrow> error + byte list" where
  \<comment> \<open>\<^verbatim>\<open>for await (const chunk of stream) chunks.push(chunk); return Buffer.concat(chunks)\<close>\<close>
  "bufferStream stream =
     (case failure stream of
        Some err \<Rightarrow> Inl err
      | None \<Rightarrow> Inr (concat (chunks stream)))"

definition PassThrough_end :: "byte list \<Rightarrow> readable" where
  \<comment> \<open>\<^verbatim>\<open>new PassThrough().end(data)\<close>: a stream that delivers \<open>data\<close> and ends\<close>
  "PassThrough_end data = Readable [data] None"

definition hash_update :: "byte list \<Rightarrow> byte list \<Rightarrow> byte list" where
  \<comment> \<open>\<^verbatim>\<open>hash.update(data)\<close>; the state of the hash object is the input absorbed so far\<close>
  "hash_update h data = h @ data"

definition generate :: "readable \<Rightarrow> error + string" where
  \<comment> \<open>\<^verbatim>\<open>Checksum.generate\<close>: update on every \<^verbatim>\<open>data\<close> event, resolve with the hex digest on
      \<^verbatim>\<open>end\<close>, reject on \<^verbatim>\<open>error\<close>\<close>
  "generate stream =
     (case failure stream of
        Some err \<Rightarrow> Inl err
      | None \<Rightarrow> Inr (sha256_hex (fold (\<lambda>data h. hash_update h data) (chunks stream) [])))"

section \<open>JSON values and storage objects\<close>

datatype json =
    JNull | JBool bool | JNumber int | JString string
  | JArray "json list" | JObject "(string \<times> json) list"

fun getProp :: "json \<Rightarrow> string \<Rightarrow> error + json option" where
  \<comment> \<open>the property read \<^verbatim>\<open>item.Key\<close> on a decoded JSON value, for the capitalised keys the
      client reads; \<open>None\<close> is \<^verbatim>\<open>undefined\<close>, and reading a property of \<^verbatim>\<open>null\<close> raises\<close>
  "getProp JNull k = Inl TypeError"
| "getProp (JObject kvs) k = Inr (map_of kvs k)"
| "getProp _ k = Inr None"

record StorageObject =
  guid :: "json option"
  userId :: "json option"
  dateCreated :: "json option"
  lastChanged :: "json option"
  storageZoneName_so :: "json option"
  path_so :: "json option"
  objectName :: "json option"
  length_so :: "json option"
  isDirectory_so :: "json option"
  serverId :: "json option"
  storageZoneId :: "json option"

definition newStorageObject :: "json \<Rightarrow> error + StorageObject" where
  \<comment> \<open>\<^verbatim>\<open>new StorageObject(item.Guid, item.UserId, ...)\<close>\<close>
  "newStorageObject item =
     (case item of
        JNull \<Rightarrow> Inl TypeError
      | _ \<Rightarrow>
        (let field = (\<lambda>k. case getProp item k of Inr v \<Rightarrow> v | Inl _ \<Rightarrow> None)
         in Inr \<lparr>guid = field ''Guid'', userId = field ''UserId'',
                 dateCreated = field ''DateCreated'', lastChanged = field ''LastChanged'',
                 storageZoneName_so = field ''StorageZoneName'', path_so = field ''Path'',
                 objectName = field ''ObjectName'', length_so = field ''Length'',
                 isDirectory_so = field ''IsDirectory'', serverId = field ''ServerId'',
                 storageZoneId = field ''StorageZoneId''\<rparr>))"

fun newStorageObjects :: "json list \<Rightarrow> error + StorageObject list" where
  \<comment> \<open>\<^verbatim>\<open>responseJson.map((item) => new StorageObject(...))\<close>, stopping at the first item
      that raises\<close>
  "newStorageObjects [] = Inr []"
| "newStorageObjects (item # items) =
     (case newStorageObject item of
        Inl err \<Rightarrow> Inl err
      | Inr obj \<Rightarrow>
        (case newStorageObjects items of
           Inl err \<Rightarrow> Inl err
         | Inr objs \<Rightarrow> Inr (obj # objs)))"

section \<open>HTTP exchange and the environment\<close>

record request =
  url :: string
  httpMethod :: string   \<comment> \<open>the request verb\<close>
  headers :: "(string \<times> string) list"
  body :: "readable option"
  duplex :: "string option"

record response =
  status :: nat
  jsonResult :: "error + json"   \<comment> \<open>what \<^verbatim>\<open>await response.json()\<close> gives\<close>
  bodyStream :: readable         \<comment> \<open>\<^verbatim>\<open>response.body\<close>\<close>

definition ok :: "response \<Rightarrow> bool" where
  \<comment> \<open>\<^verbatim>\<open>response.ok\<close>: the status is in the range 200 to 299\<close>
  "ok r = (200 \<le> status r \<and> status r \<le> 299)"

record env =
  fetch :: "request \<Rightarrow> error + response"
    \<comment> \<open>the transport: it rejects or resolves with a response\<close>
  createReadStream :: "string \<Rightarrow> readable"
    \<comment> \<open>\<^verbatim>\<open>fs.createReadStream\<close>: the stream of a local file\<close>

datatype event =
    OpenedFile string          \<comment> \<open>\<^verbatim>\<open>fs.createReadStream(path)\<close>\<close>
  | Buffered "byte list"       \<comment> \<open>a whole stream was collected into one buffer\<close>
  | Requested request          \<comment> \<open>\<^verbatim>\<open>fetch\<close> was called\<close>
  | CreatedFile string         \<comment> \<open>\<^verbatim>\<open>fs.createWriteStream(path)\<close>\<close>
  | Piped readable string      \<comment> \<open>\<^verbatim>\<open>stream.pipeline(source, file)\<close> was started\<close>

text \<open>
  Every operation returns what its promise settles with (\<open>Inl\<close> the error it rejects with)
  together with the effects it performed, in order.
\<close>

type_synonym 'a outcome = "(error + 'a) \<times> event list"

section \<open>Operations of the storage client\<close>

definition simpleRequest :: "client \<Rightarrow> string \<Rightarrow> string \<Rightarrow> request" where
  \<comment> \<open>the request every operation but upload sends:
      \<^verbatim>\<open>fetch(`${this.baseAddress}${normalizedPath}`, {verb, headers: {AccessKey}})\<close>\<close>
  "simpleRequest this verb normalizedPath =
     \<lparr>url = baseAddress this @ normalizedPath, httpMethod = verb,
      headers = [(''AccessKey'', apiAccessKey this)], body = None, duplex = None\<rparr>"

definition delete :: "env \<Rightarrow> client \<Rightarrow> string \<Rightarrow> bool outcome" where
  "delete env this path =
     (case normalizePath this path False of
        Inl err \<Rightarrow> (Inl err, [])
      | Inr normalizedPath \<Rightarrow>
        (let req = simpleRequest this ''DELETE'' normalizedPath
         in case fetch env req of
              Inl err \<Rightarrow> (Inl err, [Requested req])
            | Inr response \<Rightarrow> (Inr (ok response), [Requested req])))"

definition get :: "env \<Rightarrow> client \<Rightarrow> string \<Rightarrow> StorageObject outcome" where
  "get env this path =
     (case normalizePath this path False of
        Inl err \<Rightarrow> (Inl err, [])
      | Inr normalizedPath \<Rightarrow>
        (let req = simpleRequest this ''DESCRIBE'' normalizedPath
         in case fetch env req of
              Inl err \<Rightarrow> (Inl err, [Requested req])
            | Inr response \<Rightarrow>
              (if ok response
               then (case jsonResult response of
                       Inl err \<Rightarrow> Inl err
                     | Inr item \<Rightarrow> newStorageObject item)
               else Inl (mapResponseToException this (status response) normalizedPath),
               [Requested req])))"

definition list :: "env \<Rightarrow> client \<Rightarrow> string \<Rightarrow> StorageObject list outcome" where
  "list env this path =
     (case normalizePath this path True of
        Inl err \<Rightarrow> (Inl err, [])
      | Inr normalizedPath \<Rightarrow>
        (let req = simpleRequest this ''GET'' normalizedPath
         in case fetch env req of
              Inl err \<Rightarrow> (Inl err, [Requested req])
            | Inr response \<Rightarrow>
              (if ok response
               then (case jsonResult response of
                       Inl err \<Rightarrow> Inl err
                     | Inr (JArray items) \<Rightarrow> newStorageObjects items
                     | Inr _ \<Rightarrow> Inl TypeError)
               else Inl (mapResponseToException this (status response) normalizedPath),
               [Requested req])))"

datatype upload_input =
    InString string    \<comment> \<open>\<^verbatim>\<open>typeof input === "string"\<close>: a local file path\<close>
  | InStream readable  \<comment> \<open>an object whose \<^verbatim>\<open>pipe\<close> property is truthy\<close>
  | InNull             \<comment> \<open>\<^verbatim>\<open>null\<close>\<close>
  | InUndefined        \<comment> \<open>\<^verbatim>\<open>undefined\<close>\<close>
  | InOther            \<comment> \<open>any other value: a number, a boolean, an object without \<^verbatim>\<open>pipe\<close>\<close>

definition truthy :: "string option \<Rightarrow> bool" where
  \<comment> \<open>the truth value of a \<^verbatim>\<open>string|null\<close> in a condition: \<^verbatim>\<open>null\<close> and \<^verbatim>\<open>""\<close> are false\<close>
  "truthy v = (case v of None \<Rightarrow> False | Some str \<Rightarrow> str \<noteq> [])"

definition uploadSource :: "env \<Rightarrow> upload_input \<Rightarrow> readable outcome" where
  \<comment> \<open>the choice of the stream to send; \<^verbatim>\<open>input.pipe\<close> raises on \<^verbatim>\<open>null\<close> and
      \<^verbatim>\<open>undefined\<close>\<close>
  "uploadSource env input =
     (case input of
        InString file \<Rightarrow> (Inr (createReadStream env file), [OpenedFile file])
      | InStream s \<Rightarrow> (Inr s, [])
      | InNull \<Rightarrow> (Inl TypeError, [])
      | InUndefined \<Rightarrow> (Inl TypeError, [])
      | InOther \<Rightarrow> (Inl (Error ''Invalid input type for upload''), []))"

definition uploadChecksum ::
  "readable \<Rightarrow> bool \<Rightarrow> string option \<Rightarrow> (string option \<times> readable) outcome" where
  \<comment> \<open>\<^verbatim>\<open>if (validateChecksum && !sha256Checksum) { ... }\<close>: the checksum and the stream
      after the block\<close>
  "uploadChecksum stream validateChecksum sha256Checksum =
     (if validateChecksum \<and> \<not> truthy sha256Checksum
      then (case bufferStream stream of
              Inl err \<Rightarrow> (Inl err, [])
            | Inr bufferedData \<Rightarrow>
              (case generate (PassThrough_end bufferedData) of
                 Inl err \<Rightarrow> (Inl err, [Buffered bufferedData])
               | Inr digest \<Rightarrow>
                 (Inr (Some digest, PassThrough_end bufferedData), [Buffered bufferedData])))
      else (Inr (sha256Checksum, stream), []))"

definition uploadRequest ::
  "client \<Rightarrow> string \<Rightarrow> readable \<Rightarrow> string option \<Rightarrow> string \<Rightarrow> request" where
  \<comment> \<open>the headers and the \<^verbatim>\<open>PUT\<close> request of upload\<close>
  "uploadRequest this normalizedPath stream sha256Checksum contentTypeOverride =
     \<lparr>url = baseAddress this @ normalizedPath, httpMethod = ''PUT'',
      headers = [(''AccessKey'', apiAccessKey this)]
        @ (case sha256Checksum of
             None \<Rightarrow> []
           | Some c \<Rightarrow> if c \<noteq> [] then [(''Checksum'', c)] else [])
        @ (if contentTypeOverride \<noteq> []
           then [(''Override-Content-Type'', contentTypeOverride)] else []),
      body = Some stream, duplex = Some ''half''\<rparr>"

definition upload ::
  "env \<Rightarrow> client \<Rightarrow> upload_input \<Rightarrow> string \<Rightarrow> bool \<Rightarrow> string option \<Rightarrow> string
     \<Rightarrow> json outcome" where
  "upload env this input storagePath validateChecksum sha256Checksum contentTypeOverride =
     (case normalizePath this storagePath False of
        Inl err \<Rightarrow> (Inl err, [])
      | Inr normalizedPath \<Rightarrow>
        (case uploadSource env input of
           (Inl err, evs) \<Rightarrow> (Inl err, evs)
         | (Inr stream, evs) \<Rightarrow>
           (case uploadChecksum stream validateChecksum sha256Checksum of
              (Inl err, evs') \<Rightarrow> (Inl err, evs @ evs')
            | (Inr (checksum, stream'), evs') \<Rightarrow>
              (let req = uploadRequest this normalizedPath stream' checksum contentTypeOverride
               in case fetch env req of
                    Inl err \<Rightarrow> (Inl err, evs @ evs' @ [Requested req])
                  | Inr response \<Rightarrow>
                    (if \<not> ok response
                     then (if status response = 400 \<and> truthy checksum
                           then Inl (Error (''Checksum mismatch for '' @ normalizedPath))
                           else Inl (mapResponseToException this (status response)
                                      normalizedPath))
                     else jsonResult response,
                     evs @ evs' @ [Requested req])))))"

definition createFolder :: "env \<Rightarrow> client \<Rightarrow> string \<Rightarrow> json outcome" where
  "createFolder env this path =
     (case normalizePath this path True of
        Inl err \<Rightarrow> (Inl err, [])
      | Inr normalizedPath \<Rightarrow>
        (let req = simpleRequest this ''PUT'' normalizedPath
         in case fetch env req of
              Inl err \<Rightarrow> (Inl err, [Requested req])
            | Inr response \<Rightarrow>
              (if \<not> ok response
               then Inl (mapResponseToException this (status response) normalizedPath)
               else jsonResult response,
               [Requested req])))"

definition deleteFolder :: "env \<Rightarrow> client \<Rightarrow> string \<Rightarrow> json outcome" where
  "deleteFolder env this path =
     (case normalizePath this path True of
        Inl err \<Rightarrow> (Inl err, [])
      | Inr normalizedPath \<Rightarrow>
        (let req = simpleRequest this ''DELETE'' normalizedPath
         in case fetch env req of
              Inl err \<Rightarrow> (Inl err, [Requested req])
            | Inr response \<Rightarrow>
              (if \<not> ok response
               then Inl (mapResponseToException this (status response) normalizedPath)
               else jsonResult response,
               [Requested req])))"

datatype writeStream = WriteStream string
  \<comment> \<open>the handle \<^verbatim>\<open>fs.createWriteStream(localFilePath)\<close> returns\<close>

definition download :: "env \<Rightarrow> client \<Rightarrow> string \<Rightarrow> string \<Rightarrow> writeStream outcome" where
  "download env this path localFilePath =
     (case normalizePath this path False of
        Inl err \<Rightarrow> (Inl err, [])
      | Inr normalizedPath \<Rightarrow>
        (let req = simpleRequest this ''GET'' normalizedPath
         in case fetch env req of
              Inl err \<Rightarrow> (Inl err, [Requested req])
            | Inr response \<Rightarrow>
              (if \<not> ok response
               then (Inl (mapResponseToException this (status response) normalizedPath),
                     [Requested req])
               else (Inr (WriteStream localFilePath),
                     [Requested req, CreatedFile localFilePath,
                      Piped (bodyStream response) localFilePath]))))"

definition downloadAsStream :: "env \<Rightarrow> client \<Rightarrow> string \<Rightarrow> readable outcome" where
  "downloadAsStream env this path =
     (case normalizePath this path False of
        Inl err \<Rightarrow> (Inl err, [])
      | Inr normalizedPath \<Rightarrow>
        (let req = simpleRequest this ''GET'' normalizedPath
         in case fetch env req of
              Inl err \<Rightarrow> (Inl err, [Requested req])
            | Inr response \<Rightarrow>
              (if \<not> ok response
               then Inl (mapResponseToException this (status response) normalizedPath)
               else Inr (bodyStream response),
               [Requested req])))"

section \<open>Region resolver\<close>

lemma char_eq_nat: "c = d \<longleftrightarrow> (of_char c :: nat) = of_char d"
  by simp

lemma toLowerCaseChar_nat:
  "(of_char (toLowerCaseChar c) :: nat) =
     (let n = of_char c
      in if (65 \<le> n \<and> n \<le> 90) \<or> (192 \<le> n \<and> n \<le> 222 \<and> n \<noteq> 215) then n + 32 else n)"
  by (simp add: toLowerCaseChar_def Let_def)

lemma toLowerCaseChar_d:
  "toLowerCaseChar c = CHR ''d'' \<longleftrightarrow> c = CHR ''d'' \<or> c = CHR ''D''"
  unfolding char_eq_nat[of _ "CHR ''d''"] char_eq_nat[of _ "CHR ''D''"] toLowerCaseChar_nat
  by (simp add: Let_def) arith

lemma toLowerCaseChar_e:
  "toLowerCaseChar c = CHR ''e'' \<longleftrightarrow> c = CHR ''e'' \<or> c = CHR ''E''"
  unfolding char_eq_nat[of _ "CHR ''e''"] char_eq_nat[of _ "CHR ''E''"] toLowerCaseChar_nat
  by (simp add: Let_def) arith

lemma toLowerCase_de:
  "toLowerCase r = ''de'' \<longleftrightarrow> r = ''de'' \<or> r = ''De'' \<or> r = ''dE'' \<or> r = ''DE''"
proof -
  have "toLowerCase r = ''de'' \<longleftrightarrow>
        (\<exists>a b. r = [a, b] \<and> toLowerCaseChar a = CHR ''d'' \<and> toLowerCaseChar b = CHR ''e'')"
    by (auto simp: toLowerCase_def map_eq_Cons_conv)
  also have "\<dots> \<longleftrightarrow> r = ''de'' \<or> r = ''De'' \<or> r = ''dE'' \<or> r = ''DE''"
    unfolding toLowerCaseChar_d toLowerCaseChar_e by auto
  finally show ?thesis .
qed

text \<open>
  Claim C5.  The region resolver sends the empty code and the four casings of \<open>de\<close> to
  \<open>https://storage.bunnycdn.com/\<close>, and every other code \<open>c\<close> to \<open>https://\<close> followed by
  \<open>c\<close> as given followed by \<open>.storage.bunnycdn.com/\<close>; the code \<open>ny\<close> gives
  \<open>https://ny.storage.bunnycdn.com/\<close>.
\<close>

theorem getBaseAddress_resolves:
  "getBaseAddress r =
     (if r = '''' \<or> r = ''de'' \<or> r = ''De'' \<or> r = ''dE'' \<or> r = ''DE''
      then ''https://storage.bunnycdn.com/''
      else ''https://'' @ r @ ''.storage.bunnycdn.com/'')
   \<and> getBaseAddress ''ny'' = ''https://ny.storage.bunnycdn.com/''"
  unfolding getBaseAddress_def toLowerCase_de by simp

theorem getBaseAddress_resolves_witness:
  "getBaseAddress '''' = ''https://storage.bunnycdn.com/''
   \<and> getBaseAddress ''DE'' = ''https://storage.bunnycdn.com/''
   \<and> getBaseAddress ''ny'' = ''https://ny.storage.bunnycdn.com/''
   \<and> getBaseAddress ''NY'' = ''https://NY.storage.bunnycdn.com/''"
  using getBaseAddress_resolves [of "''''"] getBaseAddress_resolves [of "''DE''"]
    getBaseAddress_resolves [of "''NY''"]
  by simp

section \<open>Path normalizer\<close>

subsection \<open>String lemmas\<close>

lemma startsWith_simps [simp]:
  "startsWith s [] = True"
  "startsWith [] (d # t) = False"
  "startsWith (c # s) (d # t) = (c = d \<and> startsWith s t)"
  by (auto simp: startsWith_def)

lemma startsWith_append: "startsWith s t \<longleftrightarrow> (\<exists>r. s = t @ r)"
proof
  assume "startsWith s t"
  then have "s = t @ drop (length t) s"
    using append_take_drop_id[of "length t" s] by (simp add: startsWith_def)
  then show "\<exists>r. s = t @ r" ..
next
  assume "\<exists>r. s = t @ r"
  then show "startsWith s t" by (auto simp: startsWith_def)
qed

lemma includesStr_iff: "includesStr s t \<longleftrightarrow> (\<exists>a b. s = a @ t @ b)"
proof (induction s)
  case Nil
  then show ?case by auto
next
  case (Cons c s)
  show ?case
  proof
    assume "includesStr (c # s) t"
    then consider "startsWith (c # s) t" | "includesStr s t" by auto
    then show "\<exists>a b. c # s = a @ t @ b"
    proof cases
      case 1
      then obtain r where "c # s = t @ r" by (auto simp: startsWith_append)
      then have "c # s = [] @ t @ r" by simp
      then show ?thesis by blast
    next
      case 2
      then obtain a b where "s = a @ t @ b" using Cons.IH by blast
      then have "c # s = (c # a) @ t @ b" by simp
      then show ?thesis by blast
    qed
  next
    assume "\<exists>a b. c # s = a @ t @ b"
    then obtain a b where ab: "c # s = a @ t @ b" by blast
    show "includesStr (c # s) t"
    proof (cases a)
      case Nil
      with ab have "startsWith (c # s) t" by (auto simp: startsWith_append)
      then show ?thesis by simp
    next
      case (Cons a0 a')
      with ab have "s = a' @ t @ b" by simp
      then have "includesStr s t" using Cons.IH by blast
      then show ?thesis by simp
    qed
  qed
qed

lemma endsWith_iff: "endsWith s t \<longleftrightarrow> (\<exists>a. s = a @ t)"
proof
  assume "endsWith s t"
  then have "s = take (length s - length t) s @ t"
    using append_take_drop_id[of "length s - length t" s] by (simp add: endsWith_def)
  then show "\<exists>a. s = a @ t" ..
next
  assume "\<exists>a. s = a @ t"
  then show "endsWith s t" by (auto simp: endsWith_def)
qed

lemma endsWith_slash: "endsWith s ''/'' \<longleftrightarrow> s \<noteq> [] \<and> last s = CHR ''/''"
  by (cases s rule: rev_cases) (auto simp: endsWith_def)

lemma endsWith_includesStr: "endsWith s t \<Longrightarrow> includesStr s t"
proof -
  assume "endsWith s t"
  then obtain a where "s = a @ t @ []" by (auto simp: endsWith_iff)
  then show ?thesis unfolding includesStr_iff by blast
qed

lemma collapseSlashes_Nil_iff [simp]: "collapseSlashes s = [] \<longleftrightarrow> s = []"
  by (cases s) auto

lemma hd_collapseSlashes: "hd (collapseSlashes s) = hd s"
  by (cases s) auto

lemma dropWhile_slash_last:
  "dropWhile (\<lambda>c. c = CHR ''/'') s \<noteq> [] \<Longrightarrow> last (dropWhile (\<lambda>c. c = CHR ''/'') s) = last s"
  by (induction s) (auto split: if_splits)

lemma dropWhile_slash_Nil_last:
  "dropWhile (\<lambda>c. c = CHR ''/'') s = [] \<Longrightarrow> s \<noteq> [] \<Longrightarrow> last s = CHR ''/''"
  by (induction s) (auto split: if_splits)

lemma last_collapseSlashes: "last (collapseSlashes s) = last s"
proof (induction s rule: collapseSlashes.induct)
  case 1
  then show ?case by simp
next
  case (2 c s)
  let ?d = "dropWhile (\<lambda>c. c = CHR ''/'') s"
  show ?case
  proof (cases "c = CHR ''/''")
    case True
    then have eq: "collapseSlashes (c # s) = CHR ''/'' # collapseSlashes ?d" by simp
    show ?thesis
    proof (cases "?d = []")
      case True
      then have "collapseSlashes (c # s) = [CHR ''/'']" using eq by simp
      moreover have "last (c # s) = CHR ''/''"
        using dropWhile_slash_Nil_last[OF True] \<open>c = CHR ''/''\<close> by (cases "s = []") simp_all
      ultimately show ?thesis by simp
    next
      case False
      then have "s \<noteq> []" by auto
      have "last (collapseSlashes ?d) = last ?d" using 2(1)[OF True] .
      also have "\<dots> = last s" using dropWhile_slash_last[OF False] .
      finally have "last (collapseSlashes ?d) = last s" .
      moreover have "collapseSlashes ?d \<noteq> []" using False by simp
      then have "last (CHR ''/'' # collapseSlashes ?d) = last (collapseSlashes ?d)"
        by (rule last_ConsR)
      moreover have "last (c # s) = last s" using \<open>s \<noteq> []\<close> by (rule last_ConsR)
      ultimately show ?thesis unfolding eq by (simp only:)
    qed
  next
    case False
    then have eq: "collapseSlashes (c # s) = c # collapseSlashes s" by simp
    have "last (collapseSlashes s) = last s" using 2(2)[OF False] .
    then show ?thesis unfolding eq by simp
  qed
qed


lemma includesStr_dslash_Cons:
  "includesStr (c # s) ''//'' \<longleftrightarrow>
     (c = CHR ''/'' \<and> s \<noteq> [] \<and> hd s = CHR ''/'') \<or> includesStr s ''//''"
  by (cases s) auto

lemma hd_dropWhile_slash:
  "dropWhile (\<lambda>c. c = CHR ''/'') s \<noteq> [] \<Longrightarrow> hd (dropWhile (\<lambda>c. c = CHR ''/'') s) \<noteq> CHR ''/''"
  by (induction s) (auto split: if_splits)

lemma collapseSlashes_no_double: "\<not> includesStr (collapseSlashes s) ''//''"
proof (induction s rule: collapseSlashes.induct)
  case 1
  then show ?case by simp
next
  case (2 c s)
  show ?case
  proof (cases "c = CHR ''/''")
    case True
    let ?d = "dropWhile (\<lambda>c. c = CHR ''/'') s"
    have ih: "\<not> includesStr (collapseSlashes ?d) ''//''" using 2 True by simp
    have "collapseSlashes ?d \<noteq> [] \<Longrightarrow> hd (collapseSlashes ?d) \<noteq> CHR ''/''"
      using hd_dropWhile_slash[of s] by (simp add: hd_collapseSlashes)
    with ih have "\<not> includesStr (CHR ''/'' # collapseSlashes ?d) ''//''"
      unfolding includesStr_dslash_Cons by blast
    with True show ?thesis by simp
  next
    case False
    have "\<not> includesStr (collapseSlashes s) ''//''" using 2 False by simp
    then have "\<not> includesStr (c # collapseSlashes s) ''//''"
      unfolding includesStr_dslash_Cons using False by blast
    with False show ?thesis by simp
  qed
qed

lemma dropWhile_id: "s = [] \<or> \<not> P (hd s) \<Longrightarrow> dropWhile P s = s"
  by (cases s) auto

lemma collapseSlashes_idem: "collapseSlashes (collapseSlashes s) = collapseSlashes s"
proof (induction s rule: collapseSlashes.induct)
  case 1
  then show ?case by simp
next
  case (2 c s)
  show ?case
  proof (cases "c = CHR ''/''")
    case True
    let ?d = "dropWhile (\<lambda>c. c = CHR ''/'') s"
    have "dropWhile (\<lambda>c. c = CHR ''/'') (collapseSlashes ?d) = collapseSlashes ?d"
      using hd_dropWhile_slash[of s]
      by (intro dropWhile_id) (auto simp: hd_collapseSlashes)
    with 2 True show ?thesis by simp
  next
    case False
    with 2 show ?thesis by simp
  qed
qed

lemma collapseSlashes_zone_prefix:
  "\<not> includesStr (z @ ''/'') ''//'' \<Longrightarrow>
   collapseSlashes (z @ ''/'' @ r) = z @ ''/'' @ collapseSlashes (dropWhile (\<lambda>c. c = CHR ''/'') r)"
proof (induction z)
  case Nil
  then show ?case by simp
next
  case (Cons c z)
  from Cons.prems have "\<not> includesStr (c # (z @ ''/'')) ''//''" by simp
  then have nd: "\<not> includesStr (z @ ''/'') ''//''"
    and hd: "\<not> (c = CHR ''/'' \<and> hd (z @ ''/'') = CHR ''/'')"
    unfolding includesStr_dslash_Cons by simp_all
  show ?case
  proof (cases "c = CHR ''/''")
    case True
    with hd have "hd (z @ ''/'' @ r) \<noteq> CHR ''/''" by (cases z) auto
    then have "dropWhile (\<lambda>c. c = CHR ''/'') (z @ ''/'' @ r) = z @ ''/'' @ r"
      by (intro dropWhile_id) auto
    with True Cons.IH[OF nd] show ?thesis by simp
  next
    case False
    with Cons.IH[OF nd] show ?thesis by simp
  qed
qed

lemma set_collapseSlashes: "set (collapseSlashes s) \<subseteq> set s"
proof (induction s rule: collapseSlashes.induct)
  case 1
  then show ?case by simp
next
  case (2 c s)
  show ?case
  proof (cases "c = CHR ''/''")
    case True
    have "set (dropWhile (\<lambda>c. c = CHR ''/'') s) \<subseteq> set s"
      by (auto dest: set_dropWhileD)
    with 2(1)[OF True] True show ?thesis by auto
  next
    case False
    with 2(2)[OF False] show ?thesis by auto
  qed
qed

lemma dropWhile_neD: "dropWhile P s \<noteq> [] \<Longrightarrow> s \<noteq> []"
  by (cases s) simp_all

lemma dropWhile_last: "dropWhile P s \<noteq> [] \<Longrightarrow> last (dropWhile P s) = last s"
  by (induction s) (auto split: if_splits)

lemma hd_dropWhile_not: "dropWhile P s \<noteq> [] \<Longrightarrow> \<not> P (hd (dropWhile P s))"
  by (induction s) (auto split: if_splits)

lemma trim_ends:
  "trim s = [] \<or> (\<not> isWhiteSpace (hd (trim s)) \<and> \<not> isWhiteSpace (last (trim s)))"
proof (cases "trim s = []")
  case True
  then show ?thesis by simp
next
  case False
  let ?a = "dropWhile isWhiteSpace s"
  let ?b = "dropWhile isWhiteSpace (rev ?a)"
  have t: "trim s = rev ?b" by (simp add: trim_def)
  with False have b: "?b \<noteq> []" by simp
  then have "rev ?a \<noteq> []" by (rule dropWhile_neD)
  then have a: "?a \<noteq> []" by (simp only: rev_is_Nil_conv not_False_eq_True)
  have "last (trim s) = hd ?b" using b by (simp only: t last_rev)
  moreover have "\<not> isWhiteSpace (hd ?b)" using b by (rule hd_dropWhile_not)
  moreover have "hd (trim s) = last ?b" using b by (simp only: t hd_rev)
  moreover have "last ?b = last (rev ?a)" using b by (rule dropWhile_last)
  moreover have "last (rev ?a) = hd ?a" using a by (simp only: last_rev)
  moreover have "\<not> isWhiteSpace (hd ?a)" using a by (rule hd_dropWhile_not)
  ultimately show ?thesis by simp
qed

lemma trim_id:
  assumes "s \<noteq> []" "\<not> isWhiteSpace (hd s)" "\<not> isWhiteSpace (last s)"
  shows "trim s = s"
proof -
  have 1: "dropWhile isWhiteSpace s = s" using assms(2) by (intro dropWhile_id) simp
  have "hd (rev s) = last s" using assms(1) by (simp add: hd_rev)
  then have 2: "dropWhile isWhiteSpace (rev s) = rev s"
    using assms(3) by (intro dropWhile_id) simp
  show ?thesis unfolding trim_def 1 2 by simp
qed

lemma not_ws_slash [simp]: "\<not> isWhiteSpace (CHR ''/'')"
  by (simp add: isWhiteSpace_def)

lemma replaceBackslashes_Nil_iff [simp]: "replaceBackslashes s = [] \<longleftrightarrow> s = []"
  by (simp add: replaceBackslashes_def)

lemma replaceBackslashes_no_backslash: "CHR 0x5C \<notin> set (replaceBackslashes s)"
  by (auto simp: replaceBackslashes_def)

lemma replaceBackslashes_id: "CHR 0x5C \<notin> set s \<Longrightarrow> replaceBackslashes s = s"
  unfolding replaceBackslashes_def by (induction s) auto

lemma replaceBackslashes_last:
  "s \<noteq> [] \<Longrightarrow> \<not> isWhiteSpace (last s) \<Longrightarrow> \<not> isWhiteSpace (last (replaceBackslashes s))"
  by (simp add: replaceBackslashes_def last_map)

text \<open>The string the zone check is made on.\<close>

lemma path1_props:
  fixes p :: string
  defines "P \<equiv> stripLeadingSlashes (replaceBackslashes (trim p))"
  shows "P = [] \<or> (hd P \<noteq> CHR ''/'' \<and> \<not> isWhiteSpace (last P))" and "CHR 0x5C \<notin> set P"
proof -
  let ?r = "replaceBackslashes (trim p)"
  show "CHR 0x5C \<notin> set P"
    using replaceBackslashes_no_backslash[of "trim p"]
    unfolding P_def stripLeadingSlashes_def by (auto dest: set_dropWhileD)
  show "P = [] \<or> (hd P \<noteq> CHR ''/'' \<and> \<not> isWhiteSpace (last P))"
  proof (cases "P = []")
    case True
    then show ?thesis by simp
  next
    case False
    then have ne: "dropWhile (\<lambda>c. c = CHR ''/'') ?r \<noteq> []"
      by (simp add: P_def stripLeadingSlashes_def)
    then have "?r \<noteq> []" by (rule dropWhile_neD)
    then have "trim p \<noteq> []" by (simp only: replaceBackslashes_Nil_iff not_False_eq_True)
    then have "\<not> isWhiteSpace (last (trim p))" using trim_ends[of p] by simp
    then have "\<not> isWhiteSpace (last ?r)"
      using \<open>trim p \<noteq> []\<close> by (rule replaceBackslashes_last[rotated])
    moreover have "last P = last ?r"
      unfolding P_def stripLeadingSlashes_def using ne by (rule dropWhile_last)
    moreover have "hd P \<noteq> CHR ''/''"
      unfolding P_def stripLeadingSlashes_def using hd_dropWhile_not[OF ne] by simp
    ultimately show ?thesis by simp
  qed
qed

lemma normalizePath_Inr_iff:
  "normalizePath this p d = Inr q \<longleftrightarrow>
     startsWith (stripLeadingSlashes (replaceBackslashes (trim p))) (storageZoneName this @ ''/'')
     \<and> q = collapseSlashes
             (let P = stripLeadingSlashes (replaceBackslashes (trim p))
              in if d then (if endsWith P ''/'' then P else P @ ''/'') else P)"
  by (auto simp: normalizePath_def Let_def)


subsection \<open>Failure of the zone check\<close>

text \<open>
  Claim C2.  Normalization fails with the validation error exactly when the path, after
  trimming, replacing backslashes and stripping leading slashes, does not start with the zone
  name followed by a slash; then every operation rejects with that error and performs no
  effect, in particular no HTTP request.  Otherwise normalization succeeds.
\<close>

theorem normalizePath_fails_iff:
  fixes this :: client and env :: env
  defines "P \<equiv> \<lambda>p. stripLeadingSlashes (replaceBackslashes (trim p))"
  defines "err \<equiv> Error (''Path validation failed. File path must begin with /''
                          @ storageZoneName this @ ''/.'')"
  shows "(\<not> startsWith (P p) (storageZoneName this @ ''/'') \<longrightarrow>
            normalizePath this p d = Inl err
          \<and> delete env this p = (Inl err, [])
          \<and> get env this p = (Inl err, [])
          \<and> list env this p = (Inl err, [])
          \<and> upload env this input p v c ct = (Inl err, [])
          \<and> createFolder env this p = (Inl err, [])
          \<and> deleteFolder env this p = (Inl err, [])
          \<and> download env this p lf = (Inl err, [])
          \<and> downloadAsStream env this p = (Inl err, []))
       \<and> (startsWith (P p) (storageZoneName this @ ''/'') \<longrightarrow>
            (\<exists>q. normalizePath this p d = Inr q))"
proof -
  have fail: "normalizePath this p b = Inl err"
    if "\<not> startsWith (P p) (storageZoneName this @ ''/'')" for b
    using that by (simp add: normalizePath_def P_def err_def Let_def)
  have succ: "\<exists>q. normalizePath this p d = Inr q"
    if "startsWith (P p) (storageZoneName this @ ''/'')"
    using that by (simp add: normalizePath_def P_def Let_def)
  show ?thesis
    using fail succ
    by (simp add: delete_def get_def list_def upload_def createFolder_def deleteFolder_def
        download_def downloadAsStream_def)
qed

theorem normalizePath_fails_iff_witness:
  "\<not> startsWith (stripLeadingSlashes (replaceBackslashes (trim ''other/f'')))
        (storageZoneName (BunnyCDNStorage ''zone'' ''key'' ''de'') @ ''/'')
   \<and> normalizePath (BunnyCDNStorage ''zone'' ''key'' ''de'') ''other/f'' True =
         Inl (Error (''Path validation failed. File path must begin with /''
                     @ storageZoneName (BunnyCDNStorage ''zone'' ''key'' ''de'') @ ''/.''))
   \<and> upload \<lparr>fetch = (\<lambda>r. Inl (Rejected ''offline'')), createReadStream = (\<lambda>f. Readable [] None)\<rparr>
         (BunnyCDNStorage ''zone'' ''key'' ''de'') (InString ''a.txt'') ''other/f'' True None '''' =
         (Inl (Error (''Path validation failed. File path must begin with /''
                      @ storageZoneName (BunnyCDNStorage ''zone'' ''key'' ''de'') @ ''/.'')), [])
   \<and> startsWith (stripLeadingSlashes (replaceBackslashes (trim ''/zone/f'')))
        (storageZoneName (BunnyCDNStorage ''zone'' ''key'' ''de'') @ ''/'')
   \<and> (\<exists>q. normalizePath (BunnyCDNStorage ''zone'' ''key'' ''de'') ''/zone/f'' True = Inr q)"
proof -
  let ?c = "BunnyCDNStorage ''zone'' ''key'' ''de''"
  let ?env = "\<lparr>fetch = (\<lambda>r. Inl (Rejected ''offline'')), createReadStream = (\<lambda>f. Readable [] None)\<rparr>"
  have h1: "\<not> startsWith (stripLeadingSlashes (replaceBackslashes (trim ''other/f'')))
              (storageZoneName ?c @ ''/'')"
    by code_simp
  have h2: "startsWith (stripLeadingSlashes (replaceBackslashes (trim ''/zone/f'')))
              (storageZoneName ?c @ ''/'')"
    by code_simp
  note t1 = normalizePath_fails_iff [where this = ?c and p = "''other/f''" and d = True
      and env = ?env and input = "InString ''a.txt''" and v = True and c = None and ct = "''''",
      THEN conjunct1, THEN mp, OF h1]
  note t2 = normalizePath_fails_iff [where this = ?c and p = "''/zone/f''" and d = True,
      THEN conjunct2, THEN mp, OF h2]
  from h1 h2 t1 t2 show ?thesis by blast
qed

subsection \<open>Directory mode\<close>

text \<open>
  Claim C4.  When directory-mode normalization succeeds, the result ends in a slash, does not
  end in two slashes, and contains no two consecutive slashes anywhere.
\<close>

theorem normalizePath_directory_single_slash:
  assumes "normalizePath this p True = Inr q"
  shows "endsWith q ''/'' \<and> \<not> endsWith q ''//'' \<and> \<not> includesStr q ''//''"
proof -
  let ?P = "stripLeadingSlashes (replaceBackslashes (trim p))"
  let ?P2 = "if endsWith ?P ''/'' then ?P else ?P @ ''/''"
  from assms have q: "q = collapseSlashes ?P2"
    by (simp add: normalizePath_Inr_iff Let_def)
  have "?P2 \<noteq> [] \<and> last ?P2 = CHR ''/''"
    by (simp add: endsWith_slash)
  then have "q \<noteq> [] \<and> last q = CHR ''/''"
    unfolding q by (simp only: last_collapseSlashes collapseSlashes_Nil_iff not_False_eq_True)
  then have 1: "endsWith q ''/''" by (simp add: endsWith_slash)
  have 2: "\<not> includesStr q ''//''" unfolding q by (rule collapseSlashes_no_double)
  then have 3: "\<not> endsWith q ''//''" using endsWith_includesStr by blast
  from 1 2 3 show ?thesis by simp
qed

theorem normalizePath_directory_single_slash_witness:
  "normalizePath (BunnyCDNStorage ''zone'' ''key'' ''de'')
     ('' '' @ [CHR 0x5C] @ ''zone'' @ [CHR 0x5C, CHR 0x5C] @ ''dir//f//// '') True = Inr ''zone/dir/f/''
   \<and> endsWith ''zone/dir/f/'' ''/'' \<and> \<not> endsWith ''zone/dir/f/'' ''//''
   \<and> \<not> includesStr ''zone/dir/f/'' ''//''"
proof -
  have h: "normalizePath (BunnyCDNStorage ''zone'' ''key'' ''de'')
     ('' '' @ [CHR 0x5C] @ ''zone'' @ [CHR 0x5C, CHR 0x5C] @ ''dir//f//// '') True = Inr ''zone/dir/f/''"
    by code_simp
  from h normalizePath_directory_single_slash [OF h] show ?thesis by blast
qed

subsection \<open>Idempotence\<close>

text \<open>
  Claim C3, as stated for every zone name, fails: with the zone name \<open>zone/\<close> the path
  \<open>zone//f\<close> normalizes to \<open>zone/f\<close>, which the zone check then refuses.
\<close>

theorem normalizePath_idempotent_counterexample:
  "normalizePath (BunnyCDNStorage ''zone/'' ''key'' ''de'') ''zone//f'' False = Inr ''zone/f''
   \<and> normalizePath (BunnyCDNStorage ''zone/'' ''key'' ''de'') ''zone/f'' False =
       Inl (Error ''Path validation failed. File path must begin with /zone//.'')"
  by code_simp

text \<open>
  Claim C3, amended.  For a zone name that does not begin with a white-space character and
  that, followed by a slash, contains no two consecutive slashes, normalization is
  idempotent: when it succeeds on a path with a directory flag, it succeeds on its own
  output with the same flag and returns that output unchanged.
\<close>

theorem normalizePath_idempotent:
  assumes zone_ws: "storageZoneName this = [] \<or> \<not> isWhiteSpace (hd (storageZoneName this))"
    and zone_slashes: "\<not> includesStr (storageZoneName this @ ''/'') ''//''"
    and ok: "normalizePath this p d = Inr q"
  shows "normalizePath this q d = Inr q"
proof -
  let ?z = "storageZoneName this"
  let ?P = "stripLeadingSlashes (replaceBackslashes (trim p))"
  let ?P2 = "if d then (if endsWith ?P ''/'' then ?P else ?P @ ''/'') else ?P"
  from ok have sw: "startsWith ?P (?z @ ''/'')" and q: "q = collapseSlashes ?P2"
    by (simp_all add: normalizePath_Inr_iff Let_def)
  from sw obtain r where P: "?P = ?z @ ''/'' @ r"
    by (auto simp: startsWith_append)
  then have Pne: "?P \<noteq> []" by simp
  with path1_props(1)[of p] have hdP: "hd ?P \<noteq> CHR ''/''" and lastP: "\<not> isWhiteSpace (last ?P)"
    by simp_all
  have zne: "?z \<noteq> []"
  proof
    assume "?z = []"
    with P have "hd ?P = CHR ''/''" by simp
    with hdP show False by simp
  qed
  then have hdPz: "hd ?P = hd ?z" using P by (metis hd_append2)
  have nows: "\<not> isWhiteSpace (hd ?P)" using zone_ws zne hdPz by simp
  obtain r2 where P2: "?P2 = ?z @ ''/'' @ r2"
    using P by (cases "d \<and> \<not> endsWith ?P ''/''") auto
  have P2ne: "?P2 \<noteq> []" using Pne by simp
  have hdP2: "hd ?P2 = hd ?P" using Pne by simp
  have lastP2: "\<not> isWhiteSpace (last ?P2)" using lastP Pne by simp
  have setP2: "CHR 0x5C \<notin> set ?P2" using path1_props(2)[of p] by simp
  have qne: "q \<noteq> []" unfolding q using P2ne by (simp only: collapseSlashes_Nil_iff not_False_eq_True)
  have hdq: "hd q = hd ?P" unfolding q by (simp only: hd_collapseSlashes hdP2)
  have lastq: "last q = last ?P2" unfolding q by (simp only: last_collapseSlashes)
  have setq: "CHR 0x5C \<notin> set q" using setP2 set_collapseSlashes[of ?P2] unfolding q by blast
  have 1: "trim q = q" using qne nows lastP2 by (intro trim_id) (simp_all only: hdq lastq not_False_eq_True)
  have 2: "replaceBackslashes q = q" using setq by (rule replaceBackslashes_id)
  have 3: "stripLeadingSlashes q = q"
    unfolding stripLeadingSlashes_def using hdP by (intro dropWhile_id) (simp add: hdq)
  have "q = ?z @ ''/'' @ collapseSlashes (dropWhile (\<lambda>c. c = CHR ''/'') r2)"
    unfolding q P2 using zone_slashes by (rule collapseSlashes_zone_prefix)
  then have 4: "startsWith q (?z @ ''/'')"
    unfolding startsWith_append by simp
  have 5: "d \<Longrightarrow> endsWith q ''/''"
  proof -
    assume d
    then have "last ?P2 = CHR ''/''" by (simp add: endsWith_slash)
    with qne lastq show ?thesis by (simp add: endsWith_slash)
  qed
  have 6: "collapseSlashes q = q" unfolding q by (rule collapseSlashes_idem)
  show ?thesis
    using 4 5 6 by (auto simp: normalizePath_def Let_def 1 2 3)
qed

theorem normalizePath_idempotent_witness:
  "(storageZoneName (BunnyCDNStorage ''zone'' ''key'' ''de'') = []
      \<or> \<not> isWhiteSpace (hd (storageZoneName (BunnyCDNStorage ''zone'' ''key'' ''de''))))
   \<and> \<not> includesStr (storageZoneName (BunnyCDNStorage ''zone'' ''key'' ''de'') @ ''/'') ''//''
   \<and> normalizePath (BunnyCDNStorage ''zone'' ''key'' ''de'')
        ('' '' @ [CHR 0x5C] @ ''zone'' @ [CHR 0x5C, CHR 0x5C] @ ''dir//f '') True = Inr ''zone/dir/f/''
   \<and> normalizePath (BunnyCDNStorage ''zone'' ''key'' ''de'') ''zone/dir/f/'' True = Inr ''zone/dir/f/''"
proof -
  let ?c = "BunnyCDNStorage ''zone'' ''key'' ''de''"
  have h1: "storageZoneName ?c = [] \<or> \<not> isWhiteSpace (hd (storageZoneName ?c))"
    by code_simp
  have h2: "\<not> includesStr (storageZoneName ?c @ ''/'') ''//''"
    by code_simp
  have h3: "normalizePath ?c ('' '' @ [CHR 0x5C] @ ''zone'' @ [CHR 0x5C, CHR 0x5C] @ ''dir//f '') True
              = Inr ''zone/dir/f/''"
    by code_simp
  from h1 h2 h3 normalizePath_idempotent [OF h1 h2 h3] show ?thesis by blast
qed

section \<open>Checksum generator and upload\<close>

subsection \<open>The digest\<close>

lemma length_hex32: "length (hex32 w) = 8"
  by (simp add: hex32_def)

lemma length_sha256_hex_of: "length (sha256_hex_of st) = 64"
  by (cases st rule: sha256_hex_of.cases) (simp add: length_hex32)

lemma length_sha256_hex: "length (sha256_hex bs) = 64"
  unfolding sha256_hex_def by (rule length_sha256_hex_of)

lemma sha256_hex_truthy: "truthy (Some (sha256_hex bs))"
  using length_sha256_hex[of bs] by (auto simp: truthy_def)

text \<open>The digests of \<open>abc\<close> and of the empty input are the reference values.\<close>

lemma sha256_hex_abc:
  "sha256_hex [0x61, 0x62, 0x63] =
     ''ba7816bf8f01cfea414140de5dae2223b00361a396177a9cb410ff61f20015ad''"
  by code_simp

lemma sha256_hex_empty:
  "sha256_hex [] = ''e3b0c44298fc1c149afbf4c8996fb92427ae41e4649b934ca495991b7852b855''"
  by code_simp

lemma fold_hash_update: "fold (\<lambda>data h. hash_update h data) cs h0 = h0 @ concat cs"
  by (induction cs arbitrary: h0) (simp_all add: hash_update_def)

lemma generate_readable:
  "failure s = None \<Longrightarrow> generate s = Inr (sha256_hex (concat (chunks s)))"
  by (simp add: generate_def fold_hash_update)

lemma generate_PassThrough: "generate (PassThrough_end data) = Inr (sha256_hex data)"
  by (simp add: generate_readable PassThrough_end_def)

subsection \<open>The steps of upload\<close>

lemma uploadChecksum_compute:
  "validateChecksum \<Longrightarrow> \<not> truthy c \<Longrightarrow> failure s = None \<Longrightarrow>
   uploadChecksum s validateChecksum c =
     (Inr (Some (sha256_hex (concat (chunks s))), PassThrough_end (concat (chunks s))),
      [Buffered (concat (chunks s))])"
  by (simp add: uploadChecksum_def bufferStream_def generate_PassThrough)

lemma uploadChecksum_keep:
  "\<not> validateChecksum \<or> truthy c \<Longrightarrow> uploadChecksum s validateChecksum c = (Inr (c, s), [])"
  by (auto simp: uploadChecksum_def)

lemma uploadSource_readable:
  "input = InString f \<and> s = createReadStream env f \<and> evs = [OpenedFile f]
     \<or> input = InStream s \<and> evs = [] \<Longrightarrow>
   uploadSource env input = (Inr s, evs)"
  by (auto simp: uploadSource_def)

lemma upload_run:
  assumes "normalizePath this sp False = Inr np"
    and "uploadSource env input = (Inr s, evs)"
    and "uploadChecksum s v c = (Inr (c', s'), evs')"
    and "fetch env (uploadRequest this np s' c' ct) = Inr resp"
  shows "upload env this input sp v c ct =
     (if \<not> ok resp
      then (if status resp = 400 \<and> truthy c'
            then Inl (Error (''Checksum mismatch for '' @ np))
            else Inl (mapResponseToException this (status resp) np))
      else jsonResult resp,
      evs @ evs' @ [Requested (uploadRequest this np s' c' ct)])"
  by (simp add: upload_def assms Let_def)

lemma upload_trace:
  assumes "normalizePath this sp False = Inr np"
    and "uploadSource env input = (Inr s, evs)"
    and "uploadChecksum s v c = (Inr (c', s'), evs')"
  shows "snd (upload env this input sp v c ct) =
           evs @ evs' @ [Requested (uploadRequest this np s' c' ct)]"
  by (cases "fetch env (uploadRequest this np s' c' ct)")
     (simp_all add: upload_def assms Let_def)

lemma upload_request_shape:
  assumes req: "Requested req \<in> set (snd (upload env this input sp True c ct))"
    and nochecksum: "\<not> truthy c"
  shows "\<exists>np s evs.
           normalizePath this sp False = Inr np
         \<and> uploadSource env input = (Inr s, evs) \<and> failure s = None"
proof (cases "normalizePath this sp False")
  case (Inl err)
  with req show ?thesis by (simp add: upload_def)
next
  case np: (Inr np)
  obtain r evs where us: "uploadSource env input = (r, evs)" by (cases "uploadSource env input")
  have noreq: "Requested req \<notin> set evs"
    using us by (auto simp: uploadSource_def split: upload_input.splits)
  show ?thesis
  proof (cases r)
    case (Inl err)
    with req np us noreq show ?thesis by (simp add: upload_def)
  next
    case s: (Inr s)
    show ?thesis
    proof (cases "failure s")
      case None
      with np us s show ?thesis by simp
    next
      case (Some err)
      then have "uploadChecksum s True c = (Inl err, [])"
        using nochecksum by (simp add: uploadChecksum_def bufferStream_def)
      with req np us s noreq show ?thesis by (simp add: upload_def)
    qed
  qed
qed

lemma upload_request_origin:
  assumes req: "Requested req \<in> set (snd (upload env this input sp v c ct))"
  shows "\<exists>np s evs c' s' evs'.
           normalizePath this sp False = Inr np
         \<and> uploadSource env input = (Inr s, evs)
         \<and> uploadChecksum s v c = (Inr (c', s'), evs')
         \<and> req = uploadRequest this np s' c' ct"
proof (cases "normalizePath this sp False")
  case (Inl err)
  with req show ?thesis by (simp add: upload_def)
next
  case np: (Inr np)
  obtain r evs where us: "uploadSource env input = (r, evs)" by (cases "uploadSource env input")
  have noreq: "Requested req \<notin> set evs"
    using us by (auto simp: uploadSource_def split: upload_input.splits)
  show ?thesis
  proof (cases r)
    case (Inl err)
    with req np us noreq show ?thesis by (simp add: upload_def)
  next
    case s: (Inr s)
    obtain r' evs' where uc: "uploadChecksum s v c = (r', evs')"
      by (cases "uploadChecksum s v c")
    have noreq': "Requested req \<notin> set evs'"
      using uc by (auto simp: uploadChecksum_def split: if_splits sum.splits)
    show ?thesis
    proof (cases r')
      case (Inl err)
      with req np us s uc noreq noreq' show ?thesis by (simp add: upload_def)
    next
      case (Inr cs)
      obtain c' s' where cs: "cs = (c', s')" by (cases cs)
      from upload_trace[OF np us[unfolded s] uc[unfolded Inr cs], of ct] req noreq noreq'
      have "req = uploadRequest this np s' c' ct" by auto
      with np us s uc Inr cs show ?thesis by blast
    qed
  qed
qed

lemma includesStr_self_suffix: "includesStr (a @ b) b"
proof -
  have "a @ b = a @ b @ []" by simp
  then show ?thesis unfolding includesStr_iff by blast
qed

section \<open>Error mapper\<close>

text \<open>
  Claim C1.  The error mapper sends status 404 to the not-found error naming the path, 401 to
  the unauthorized error naming the zone, 400 to the invalid-path error and every other
  status to the unknown error.  An upload answered with status 400 rejects with the checksum
  mismatch error when a checksum is present, whether supplied by the caller or computed
  because validation was requested, and with the invalid-path error when none is; answered
  with any other unsuccessful status it rejects with the mapped error.
\<close>

theorem error_taxonomy:
  assumes np: "normalizePath this sp False = Inr np"
    and src: "input = InString f \<and> s = createReadStream env f \<and> evs = [OpenedFile f]
              \<or> input = InStream s \<and> evs = []"
    and stub: "\<And>req. fetch env req = Inr resp"
  shows "mapResponseToException this 404 p = Error (''File not found: '' @ p)
    \<and> mapResponseToException this 401 p =
           Error (''Unauthorized access to storage zone: '' @ storageZoneName this)
    \<and> mapResponseToException this 400 p =
           Error ''Unable to upload file. Invalid path specified''
    \<and> (code \<noteq> 404 \<and> code \<noteq> 400 \<and> code \<noteq> 401 \<longrightarrow>
         mapResponseToException this code p =
           Error ''An unknown error has occurred during the request.'')
    \<and> (status resp = 400 \<and> truthy c \<longrightarrow>
         fst (upload env this input sp v c ct) =
           Inl (Error (''Checksum mismatch for '' @ np)))
    \<and> (status resp = 400 \<and> \<not> truthy c \<and> failure s = None \<longrightarrow>
         fst (upload env this input sp True c ct) =
           Inl (Error (''Checksum mismatch for '' @ np)))
    \<and> (status resp = 400 \<and> \<not> truthy c \<longrightarrow>
         fst (upload env this input sp False c ct) =
           Inl (Error ''Unable to upload file. Invalid path specified''))
    \<and> (\<not> ok resp \<and> status resp \<noteq> 400 \<and> failure s = None \<longrightarrow>
         fst (upload env this input sp v c ct) =
           Inl (mapResponseToException this (status resp) np))"
proof -
  note us = uploadSource_readable[OF src]
  have a1: "mapResponseToException this 404 p = Error (''File not found: '' @ p)"
    by (simp add: mapResponseToException_def)
  have a2: "mapResponseToException this 401 p =
           Error (''Unauthorized access to storage zone: '' @ storageZoneName this)"
    by (simp add: mapResponseToException_def)
  have a3: "mapResponseToException this 400 p =
           Error ''Unable to upload file. Invalid path specified''" for p
    by (simp add: mapResponseToException_def)
  have a4: "mapResponseToException this code p =
           Error ''An unknown error has occurred during the request.''"
    if "code \<noteq> 404 \<and> code \<noteq> 400 \<and> code \<noteq> 401"
    using that by (simp add: mapResponseToException_def)
  have a5: "fst (upload env this input sp v c ct) =
      Inl (Error (''Checksum mismatch for '' @ np))"
    if "status resp = 400 \<and> truthy c"
    using that upload_run[OF np us uploadChecksum_keep stub, of v c ct]
    by (simp add: ok_def)
  have a6: "fst (upload env this input sp True c ct) =
      Inl (Error (''Checksum mismatch for '' @ np))"
    if "status resp = 400 \<and> \<not> truthy c \<and> failure s = None"
    using that upload_run[OF np us uploadChecksum_compute stub, of True c ct]
    by (simp add: ok_def sha256_hex_truthy)
  have a7: "fst (upload env this input sp False c ct) =
           Inl (Error ''Unable to upload file. Invalid path specified'')"
    if "status resp = 400 \<and> \<not> truthy c"
    using that upload_run[OF np us uploadChecksum_keep stub, of False c ct]
    by (simp add: ok_def a3)
  have a8: "fst (upload env this input sp v c ct) =
           Inl (mapResponseToException this (status resp) np)"
    if h: "\<not> ok resp \<and> status resp \<noteq> 400 \<and> failure s = None"
  proof (cases "v \<and> \<not> truthy c")
    case True
    with h upload_run[OF np us uploadChecksum_compute stub, of v c ct]
    show ?thesis by simp
  next
    case False
    with h upload_run[OF np us uploadChecksum_keep stub, of v c ct]
    show ?thesis by auto
  qed
  from a1 a2 a3 a4 a5 a6 a7 a8 show ?thesis by blast
qed

theorem error_taxonomy_witness:
  "normalizePath (BunnyCDNStorage ''zone'' ''key'' ''de'') ''/zone/f'' False = Inr ''zone/f''
   \<and> mapResponseToException (BunnyCDNStorage ''zone'' ''key'' ''de'') 404 ''zone/f'' =
       Error ''File not found: zone/f''
   \<and> mapResponseToException (BunnyCDNStorage ''zone'' ''key'' ''de'') 500 ''zone/f'' =
       Error ''An unknown error has occurred during the request.''
   \<and> fst (upload \<lparr>fetch = (\<lambda>r. Inr \<lparr>status = 400, jsonResult = Inr JNull,
                                        bodyStream = Readable [] None\<rparr>),
                   createReadStream = (\<lambda>f. Readable [] None)\<rparr>
            (BunnyCDNStorage ''zone'' ''key'' ''de'') (InStream (Readable [[1]] None))
            ''/zone/f'' False (Some ''abc'') '''') =
       Inl (Error ''Checksum mismatch for zone/f'')
   \<and> fst (upload \<lparr>fetch = (\<lambda>r. Inr \<lparr>status = 400, jsonResult = Inr JNull,
                                        bodyStream = Readable [] None\<rparr>),
                   createReadStream = (\<lambda>f. Readable [] None)\<rparr>
            (BunnyCDNStorage ''zone'' ''key'' ''de'') (InStream (Readable [[1]] None))
            ''/zone/f'' True None '''') =
       Inl (Error ''Checksum mismatch for zone/f'')
   \<and> fst (upload \<lparr>fetch = (\<lambda>r. Inr \<lparr>status = 400, jsonResult = Inr JNull,
                                        bodyStream = Readable [] None\<rparr>),
                   createReadStream = (\<lambda>f. Readable [] None)\<rparr>
            (BunnyCDNStorage ''zone'' ''key'' ''de'') (InStream (Readable [[1]] None))
            ''/zone/f'' False None '''') =
       Inl (Error ''Unable to upload file. Invalid path specified'')
   \<and> fst (upload \<lparr>fetch = (\<lambda>r. Inr \<lparr>status = 500, jsonResult = Inr JNull,
                                        bodyStream = Readable [] None\<rparr>),
                   createReadStream = (\<lambda>f. Readable [] None)\<rparr>
            (BunnyCDNStorage ''zone'' ''key'' ''de'') (InStream (Readable [[1]] None))
            ''/zone/f'' False None '''') =
       Inl (Error ''An unknown error has occurred during the request.'')"
proof -
  let ?c = "BunnyCDNStorage ''zone'' ''key'' ''de''"
  let ?s = "Readable [[1]] None"
  let ?r400 = "\<lparr>status = 400, jsonResult = Inr JNull, bodyStream = Readable [] None\<rparr>"
  let ?r500 = "\<lparr>status = 500, jsonResult = Inr JNull, bodyStream = Readable [] None\<rparr>"
  let ?e400 = "\<lparr>fetch = (\<lambda>r. Inr ?r400), createReadStream = (\<lambda>f. Readable [] None)\<rparr>"
  let ?e500 = "\<lparr>fetch = (\<lambda>r. Inr ?r500), createReadStream = (\<lambda>f. Readable [] None)\<rparr>"
  have np: "normalizePath ?c ''/zone/f'' False = Inr ''zone/f''"
    by code_simp
  have src: "InStream ?s = InString [] \<and> ?s = createReadStream env [] \<and> [] = [OpenedFile []]
             \<or> InStream ?s = InStream ?s \<and> [] = []" for env
    by simp
  have s400: "\<And>req. fetch ?e400 req = Inr ?r400" by simp
  have s500: "\<And>req. fetch ?e500 req = Inr ?r500" by simp
  note t1 = error_taxonomy [OF np src s400, where p = "''zone/f''" and code = 500
      and c = "Some ''abc''" and v = False and ct = "''''"]
  note t2 = error_taxonomy [OF np src s400, where c = None and ct = "''''"]
  note t3 = error_taxonomy [OF np src s500, where c = None and v = False and ct = "''''"]
  from np t1 t2 t3 show ?thesis
    by (simp add: truthy_def ok_def mapResponseToException_def)
qed

text \<open>
  Claim C8, as stated, fails: the error for status 500 has a fixed message that contains
  neither the request path nor the zone name.
\<close>

theorem error_context_counterexample:
  "mapResponseToException (BunnyCDNStorage ''zone'' ''key'' ''de'') 500 ''zone/file.txt'' =
     Error ''An unknown error has occurred during the request.''
   \<and> \<not> includesStr ''An unknown error has occurred during the request.'' ''zone/file.txt''
   \<and> \<not> includesStr ''An unknown error has occurred during the request.''
         (storageZoneName (BunnyCDNStorage ''zone'' ''key'' ''de''))"
  by code_simp

text \<open>
  Claim C8, amended.  The error for status 404 contains the request path and the error for
  status 401 contains the zone name.  The checksum mismatch error of upload contains the
  normalized path, for a local file as for a stream, and for a checksum supplied by the
  caller as for one upload computed itself: it is raised whenever the request upload issued
  is answered with status 400 and a checksum was supplied or validation requested.  The error
  for every other status, 400 included, does not depend on the client or on the path.
\<close>

theorem error_context:
  "(\<exists>m. mapResponseToException this 404 p = Error m \<and> includesStr m p)
   \<and> (\<exists>m. mapResponseToException this 401 p = Error m
           \<and> includesStr m (storageZoneName this))
   \<and> (normalizePath this sp False = Inr np
         \<and> (input = InString f \<and> s = createReadStream env f \<or> input = InStream s)
         \<and> (\<forall>req. fetch env req = Inr resp) \<and> status resp = 400
         \<and> (truthy c \<or> v \<and> failure s = None) \<longrightarrow>
       (\<exists>m. fst (upload env this input sp v c ct) = Inl (Error m)
            \<and> m = ''Checksum mismatch for '' @ np \<and> includesStr m np))
   \<and> (Requested req \<in> set (snd (upload env this input sp v c ct))
         \<and> fetch env req = Inr resp \<and> status resp = 400 \<and> (truthy c \<or> v) \<longrightarrow>
       (\<exists>m np'. normalizePath this sp False = Inr np'
            \<and> fst (upload env this input sp v c ct) = Inl (Error m)
            \<and> m = ''Checksum mismatch for '' @ np' \<and> includesStr m np'))
   \<and> (code \<noteq> 404 \<and> code \<noteq> 401 \<longrightarrow>
       mapResponseToException this code p = mapResponseToException this' code p')"
proof -
  have a1: "\<exists>m. mapResponseToException this 404 p = Error m \<and> includesStr m p"
  proof -
    have "mapResponseToException this 404 p = Error (''File not found: '' @ p)"
      by (simp add: mapResponseToException_def)
    then show ?thesis
      using includesStr_self_suffix[of "''File not found: ''" p] by blast
  qed
  have a2: "\<exists>m. mapResponseToException this 401 p = Error m
              \<and> includesStr m (storageZoneName this)"
  proof -
    have "mapResponseToException this 401 p =
            Error (''Unauthorized access to storage zone: '' @ storageZoneName this)"
      by (simp add: mapResponseToException_def)
    then show ?thesis
      using includesStr_self_suffix[of "''Unauthorized access to storage zone: ''"
          "storageZoneName this"] by blast
  qed
  have mismatch: "\<exists>m. fst (upload env this input sp v c ct) = Inl (Error m)
              \<and> m = ''Checksum mismatch for '' @ n \<and> includesStr m n"
    if n: "normalizePath this sp False = Inr n"
      and us: "uploadSource env input = (Inr r, es)"
      and uc: "uploadChecksum r v c = (Inr (c', r'), es')"
      and ft: "fetch env (uploadRequest this n r' c' ct) = Inr resp"
      and st: "status resp = 400" and tr: "truthy c'" for n r es c' r' es'
  proof -
    from st tr upload_run[OF n us uc ft]
    have "fst (upload env this input sp v c ct) = Inl (Error (''Checksum mismatch for '' @ n))"
      by (simp add: ok_def)
    then show ?thesis
      using includesStr_self_suffix[of "''Checksum mismatch for ''" n] by blast
  qed
  have a3: "\<exists>m. fst (upload env this input sp v c ct) = Inl (Error m)
              \<and> m = ''Checksum mismatch for '' @ np \<and> includesStr m np"
    if h: "normalizePath this sp False = Inr np
         \<and> (input = InString f \<and> s = createReadStream env f \<or> input = InStream s)
         \<and> (\<forall>req. fetch env req = Inr resp) \<and> status resp = 400
         \<and> (truthy c \<or> v \<and> failure s = None)"
  proof -
    from h have n: "normalizePath this sp False = Inr np"
      and stub: "\<And>req. fetch env req = Inr resp" and st: "status resp = 400" by simp_all
    from h obtain es where us: "uploadSource env input = (Inr s, es)"
      by (auto simp: uploadSource_def)
    show ?thesis
    proof (cases "v \<and> \<not> truthy c")
      case True
      with h have rd: "failure s = None" by blast
      from True have uc: "uploadChecksum s v c =
          (Inr (Some (sha256_hex (concat (chunks s))), PassThrough_end (concat (chunks s))),
           [Buffered (concat (chunks s))])"
        using rd by (intro uploadChecksum_compute) simp_all
      show ?thesis by (rule mismatch[OF n us uc stub st sha256_hex_truthy])
    next
      case False
      with h have tr: "truthy c" by blast
      from False have uc: "uploadChecksum s v c = (Inr (c, s), [])"
        by (intro uploadChecksum_keep) blast
      show ?thesis by (rule mismatch[OF n us uc stub st tr])
    qed
  qed
  have a4: "\<exists>m np'. normalizePath this sp False = Inr np'
            \<and> fst (upload env this input sp v c ct) = Inl (Error m)
            \<and> m = ''Checksum mismatch for '' @ np' \<and> includesStr m np'"
    if h: "Requested req \<in> set (snd (upload env this input sp v c ct))
         \<and> fetch env req = Inr resp \<and> status resp = 400 \<and> (truthy c \<or> v)"
  proof -
    from h have mem: "Requested req \<in> set (snd (upload env this input sp v c ct))"
      and st: "status resp = 400" by simp_all
    from upload_request_origin[OF mem] obtain n r es c' r' es' where
      n: "normalizePath this sp False = Inr n"
      and us: "uploadSource env input = (Inr r, es)"
      and uc: "uploadChecksum r v c = (Inr (c', r'), es')"
      and rq: "req = uploadRequest this n r' c' ct"
      by blast
    from h rq have ft: "fetch env (uploadRequest this n r' c' ct) = Inr resp" by simp
    have tr: "truthy c'"
    proof (cases "v \<and> \<not> truthy c")
      case True
      with uc show ?thesis
        by (auto simp: uploadChecksum_def generate_PassThrough sha256_hex_truthy
            split: sum.splits)
    next
      case False
      with h have "truthy c" by blast
      moreover from False uc have "c' = c" by (auto simp: uploadChecksum_def)
      ultimately show ?thesis by simp
    qed
    from mismatch[OF n us uc ft st tr] n show ?thesis by blast
  qed
  have a5: "mapResponseToException this code p = mapResponseToException this' code p'"
    if "code \<noteq> 404 \<and> code \<noteq> 401"
    using that by (simp add: mapResponseToException_def)
  from a1 a2 a3 a4 a5 show ?thesis by blast
qed

theorem error_context_witness:
  "normalizePath (BunnyCDNStorage ''zone'' ''key'' ''de'') ''/zone/f'' False = Inr ''zone/f''
   \<and> (\<exists>m. mapResponseToException (BunnyCDNStorage ''zone'' ''key'' ''de'') 404 ''zone/f'' = Error m
           \<and> includesStr m ''zone/f'')
   \<and> (\<exists>m. fst (upload \<lparr>fetch = (\<lambda>r. Inr \<lparr>status = 400, jsonResult = Inr JNull,
                                        bodyStream = Readable [] None\<rparr>),
                   createReadStream = (\<lambda>f. Readable [[1]] None)\<rparr>
            (BunnyCDNStorage ''zone'' ''key'' ''de'') (InString ''a.txt'')
            ''/zone/f'' True None '''') = Inl (Error m)
          \<and> m = ''Checksum mismatch for '' @ ''zone/f'' \<and> includesStr m ''zone/f'')
   \<and> (\<exists>m np'. normalizePath (BunnyCDNStorage ''zone'' ''key'' ''de'') ''/zone/f'' False = Inr np'
          \<and> fst (upload \<lparr>fetch = (\<lambda>r. Inr \<lparr>status = 400, jsonResult = Inr JNull,
                                        bodyStream = Readable [] None\<rparr>),
                   createReadStream = (\<lambda>f. Readable [[1]] None)\<rparr>
            (BunnyCDNStorage ''zone'' ''key'' ''de'') (InStream (Readable [[2]] None))
            ''/zone/f'' False (Some ''abc'') '''') = Inl (Error m)
          \<and> m = ''Checksum mismatch for '' @ np' \<and> includesStr m np')
   \<and> mapResponseToException (BunnyCDNStorage ''zone'' ''key'' ''de'') 500 ''zone/f'' =
       mapResponseToException (BunnyCDNStorage ''other'' ''key'' ''de'') 500 ''other/g''"
proof -
  let ?c = "BunnyCDNStorage ''zone'' ''key'' ''de''"
  let ?r400 = "\<lparr>status = 400, jsonResult = Inr JNull, bodyStream = Readable [] None\<rparr>"
  let ?e = "\<lparr>fetch = (\<lambda>r. Inr ?r400), createReadStream = (\<lambda>f. Readable [[1]] None)\<rparr>"
  let ?s = "Readable [[2]] None"
  let ?req = "uploadRequest ?c ''zone/f'' ?s (Some ''abc'') ''''"
  have np: "normalizePath ?c ''/zone/f'' False = Inr ''zone/f''"
    by code_simp
  have hA: "normalizePath ?c ''/zone/f'' False = Inr ''zone/f''
         \<and> (InString ''a.txt'' = InString ''a.txt''
               \<and> Readable [[1]] None = createReadStream ?e ''a.txt''
             \<or> InString ''a.txt'' = InStream (Readable [[1]] None))
         \<and> (\<forall>req. fetch ?e req = Inr ?r400) \<and> status ?r400 = 400
         \<and> (truthy None \<or> True \<and> failure (Readable [[1]] None) = None)"
    using np by simp
  have us: "uploadSource ?e (InStream ?s) = (Inr ?s, [])"
    by (simp add: uploadSource_def)
  have uc: "uploadChecksum ?s False (Some ''abc'') = (Inr (Some ''abc'', ?s), [])"
    by (simp add: uploadChecksum_def)
  have mem: "Requested ?req \<in> set (snd (upload ?e ?c (InStream ?s) ''/zone/f'' False (Some ''abc'') ''''))"
    unfolding upload_trace[OF np us uc] by simp
  have hB: "Requested ?req \<in> set (snd (upload ?e ?c (InStream ?s) ''/zone/f'' False (Some ''abc'') ''''))
         \<and> fetch ?e ?req = Inr ?r400 \<and> status ?r400 = 400 \<and> (truthy (Some ''abc'') \<or> False)"
    using mem by (simp add: truthy_def)
  have h5: "(500::nat) \<noteq> 404 \<and> (500::nat) \<noteq> 401" by simp
  note tA = error_context [where this = ?c and p = "''zone/f''" and sp = "''/zone/f''"
      and np = "''zone/f''" and input = "InString ''a.txt''" and f = "''a.txt''"
      and s = "Readable [[1]] None" and env = ?e and resp = ?r400 and c = None and v = True
      and ct = "''''" and code = 500
      and this' = "BunnyCDNStorage ''other'' ''key'' ''de''" and p' = "''other/g''"]
  note tB = error_context [where this = ?c and sp = "''/zone/f''"
      and input = "InStream ?s" and env = ?e and resp = ?r400 and c = "Some ''abc''"
      and v = False and ct = "''''" and req = ?req]
  note t1 = tA [THEN conjunct1]
  note t3 = tA [THEN conjunct2, THEN conjunct2, THEN conjunct1, THEN mp, OF hA]
  note t4 = tB [THEN conjunct2, THEN conjunct2, THEN conjunct2, THEN conjunct1, THEN mp, OF hB]
  note t5 = tA [THEN conjunct2, THEN conjunct2, THEN conjunct2, THEN conjunct2, THEN mp, OF h5]
  from np t1 t3 t4 t5 show ?thesis by blast
qed

section \<open>Upload\<close>

text \<open>
  Claim C6.  An upload with checksum validation requested and no checksum supplied, on a path
  that normalizes and an input that can be read to its end, first collects the whole input
  into one buffer and then issues one request, whose body is exactly the collected bytes and
  whose \<open>Checksum\<close> header is the lower-case hexadecimal SHA-256 digest of those bytes.
  Conversely, whenever such a call issues a request, the path normalized, the input was read
  to its end, and the request is that one, preceded by the buffering.
\<close>

theorem upload_computes_checksum:
  assumes nochecksum: "\<not> truthy c"
  shows "(normalizePath this sp False = Inr np
          \<and> (input = InString f \<and> s = createReadStream env f \<and> evs = [OpenedFile f]
               \<or> input = InStream s \<and> evs = [])
          \<and> failure s = None \<longrightarrow>
          snd (upload env this input sp True c ct) =
            evs @ [Buffered (concat (chunks s)),
                   Requested
                     \<lparr>url = baseAddress this @ np, httpMethod = ''PUT'',
                      headers = [(''AccessKey'', apiAccessKey this),
                                 (''Checksum'', sha256_hex (concat (chunks s)))]
                        @ (if ct \<noteq> [] then [(''Override-Content-Type'', ct)] else []),
                      body = Some (Readable [concat (chunks s)] None),
                      duplex = Some ''half''\<rparr>])
    \<and> (Requested req \<in> set (snd (upload env this input sp True c ct)) \<longrightarrow>
         (\<exists>s' evs'.
             uploadSource env input = (Inr s', evs') \<and> failure s' = None
           \<and> snd (upload env this input sp True c ct) =
                evs' @ [Buffered (concat (chunks s')), Requested req]
           \<and> body req = Some (Readable [concat (chunks s')] None)
           \<and> map_of (headers req) ''Checksum'' = Some (sha256_hex (concat (chunks s')))))"
proof -
  have trace: "snd (upload env this input sp True c ct) =
      es @ [Buffered (concat (chunks r)),
            Requested
              \<lparr>url = baseAddress this @ n, httpMethod = ''PUT'',
               headers = [(''AccessKey'', apiAccessKey this),
                          (''Checksum'', sha256_hex (concat (chunks r)))]
                 @ (if ct \<noteq> [] then [(''Override-Content-Type'', ct)] else []),
               body = Some (Readable [concat (chunks r)] None),
               duplex = Some ''half''\<rparr>]"
    if n: "normalizePath this sp False = Inr n" and us: "uploadSource env input = (Inr r, es)"
      and rd: "failure r = None" for es r n
  proof -
    have nonempty: "sha256_hex (concat (chunks r)) \<noteq> []"
      using length_sha256_hex[of "concat (chunks r)"] by auto
    from upload_trace[OF n us uploadChecksum_compute[OF _ nochecksum rd], of True ct] nonempty
    show ?thesis by (simp add: uploadRequest_def PassThrough_end_def)
  qed
  have a1: "snd (upload env this input sp True c ct) =
            evs @ [Buffered (concat (chunks s)),
                   Requested
                     \<lparr>url = baseAddress this @ np, httpMethod = ''PUT'',
                      headers = [(''AccessKey'', apiAccessKey this),
                                 (''Checksum'', sha256_hex (concat (chunks s)))]
                        @ (if ct \<noteq> [] then [(''Override-Content-Type'', ct)] else []),
                      body = Some (Readable [concat (chunks s)] None),
                      duplex = Some ''half''\<rparr>]"
    if h: "normalizePath this sp False = Inr np
          \<and> (input = InString f \<and> s = createReadStream env f \<and> evs = [OpenedFile f]
               \<or> input = InStream s \<and> evs = [])
          \<and> failure s = None"
  proof -
    from h have "uploadSource env input = (Inr s, evs)"
      by (intro uploadSource_readable) blast
    with h show ?thesis by (intro trace) simp_all
  qed
  have a2: "\<exists>s' evs'.
             uploadSource env input = (Inr s', evs') \<and> failure s' = None
           \<and> snd (upload env this input sp True c ct) =
                evs' @ [Buffered (concat (chunks s')), Requested req]
           \<and> body req = Some (Readable [concat (chunks s')] None)
           \<and> map_of (headers req) ''Checksum'' = Some (sha256_hex (concat (chunks s')))"
    if h: "Requested req \<in> set (snd (upload env this input sp True c ct))"
  proof -
    from upload_request_shape[OF h nochecksum] obtain np' s' evs' where
      n: "normalizePath this sp False = Inr np'"
      and us: "uploadSource env input = (Inr s', evs')" and rd: "failure s' = None"
      by blast
    note tr = trace[OF n us rd]
    have "Requested req \<notin> set evs'"
      using us by (auto simp: uploadSource_def split: upload_input.splits)
    with h have req: "req =
                \<lparr>url = baseAddress this @ np', httpMethod = ''PUT'',
                 headers = [(''AccessKey'', apiAccessKey this),
                            (''Checksum'', sha256_hex (concat (chunks s')))]
                   @ (if ct \<noteq> [] then [(''Override-Content-Type'', ct)] else []),
                 body = Some (Readable [concat (chunks s')] None),
                 duplex = Some ''half''\<rparr>"
      unfolding tr by auto
    have b: "body req = Some (Readable [concat (chunks s')] None)"
      and c: "map_of (headers req) ''Checksum'' = Some (sha256_hex (concat (chunks s')))"
      unfolding req by simp_all
    from us rd tr b c show ?thesis unfolding req by blast
  qed
  from a1 a2 show ?thesis by blast
qed

theorem upload_computes_checksum_witness:
  "\<not> truthy None
   \<and> normalizePath (BunnyCDNStorage ''zone'' ''key'' ''ny'') ''/zone/abc.txt'' False = Inr ''zone/abc.txt''
   \<and> failure (Readable [[0x61], [0x62, 0x63]] None) = None
   \<and> snd (upload \<lparr>fetch = (\<lambda>r. Inr \<lparr>status = 201, jsonResult = Inr JNull,
                                        bodyStream = Readable [] None\<rparr>),
                   createReadStream = (\<lambda>f. Readable [] None)\<rparr>
            (BunnyCDNStorage ''zone'' ''key'' ''ny'') (InStream (Readable [[0x61], [0x62, 0x63]] None))
            ''/zone/abc.txt'' True None '''') =
       [Buffered [0x61, 0x62, 0x63],
        Requested
          \<lparr>url = ''https://ny.storage.bunnycdn.com/zone/abc.txt'', httpMethod = ''PUT'',
           headers = [(''AccessKey'', ''key''),
                      (''Checksum'',
                       ''ba7816bf8f01cfea414140de5dae2223b00361a396177a9cb410ff61f20015ad'')],
           body = Some (Readable [[0x61, 0x62, 0x63]] None), duplex = Some ''half''\<rparr>]
   \<and> (\<exists>s' evs'.
         uploadSource \<lparr>fetch = (\<lambda>r. Inr \<lparr>status = 201, jsonResult = Inr JNull,
                                        bodyStream = Readable [] None\<rparr>),
                   createReadStream = (\<lambda>f. Readable [] None)\<rparr>
            (InStream (Readable [[0x61], [0x62, 0x63]] None)) = (Inr s', evs')
         \<and> failure s' = None
         \<and> concat (chunks s') = [0x61, 0x62, 0x63])"
proof -
  let ?c = "BunnyCDNStorage ''zone'' ''key'' ''ny''"
  let ?s = "Readable [[0x61], [0x62, 0x63]] None"
  let ?e = "\<lparr>fetch = (\<lambda>r. Inr \<lparr>status = 201, jsonResult = Inr JNull,
                                   bodyStream = Readable [] None\<rparr>),
              createReadStream = (\<lambda>f. Readable [] None)\<rparr>"
  let ?req = "\<lparr>url = ''https://ny.storage.bunnycdn.com/zone/abc.txt'', httpMethod = ''PUT'',
           headers = [(''AccessKey'', ''key''),
                      (''Checksum'',
                       ''ba7816bf8f01cfea414140de5dae2223b00361a396177a9cb410ff61f20015ad'')],
           body = Some (Readable [[0x61, 0x62, 0x63 :: byte]] None), duplex = Some ''half''\<rparr>"
  have nc: "\<not> truthy None" by (simp add: truthy_def)
  have np: "normalizePath ?c ''/zone/abc.txt'' False = Inr ''zone/abc.txt''"
    by code_simp
  have rd: "failure ?s = None" by simp
  have h: "normalizePath ?c ''/zone/abc.txt'' False = Inr ''zone/abc.txt''
           \<and> (InStream ?s = InString [] \<and> ?s = createReadStream ?e [] \<and> [] = [OpenedFile []]
                \<or> InStream ?s = InStream ?s \<and> [] = [])
           \<and> failure ?s = None"
    using np by simp
  have base: "baseAddress ?c = ''https://ny.storage.bunnycdn.com/''"
    by code_simp
  have key: "apiAccessKey ?c = ''key''"
    by (simp add: BunnyCDNStorage_def)
  note t = upload_computes_checksum [OF nc, where ct = "''''" and env = ?e and this = ?c
      and input = "InStream ?s" and sp = "''/zone/abc.txt''" and req = ?req]
  from t [THEN conjunct1, THEN mp, OF h]
  have tr: "snd (upload ?e ?c (InStream ?s) ''/zone/abc.txt'' True None '''') =
              [Buffered [0x61, 0x62, 0x63], Requested ?req]"
    by (simp add: base key sha256_hex_abc)
  then have mem: "Requested ?req \<in> set (snd (upload ?e ?c (InStream ?s) ''/zone/abc.txt'' True None ''''))"
    by simp
  from t [THEN conjunct2, THEN mp, OF mem]
  have "\<exists>s' evs'. uploadSource ?e (InStream ?s) = (Inr s', evs') \<and> failure s' = None
         \<and> concat (chunks s') = [0x61, 0x62, 0x63]"
    unfolding tr by auto
  with nc np rd tr show ?thesis by blast
qed

text \<open>
  Claim C9.  An upload whose input is \<open>null\<close>, \<open>undefined\<close> or any other value that is
  neither a string nor an object with a truthy \<open>pipe\<close> property rejects and performs no
  effect, on every path: no file is opened, nothing is buffered and no request is issued.
  On a path that normalizes, the rejection is the invalid-input error for every such value
  except \<open>null\<close> and \<open>undefined\<close>: there the property read \<open>input.pipe\<close> raises a
  type error before the branch that throws the invalid-input error is reached.
\<close>

theorem upload_invalid_input:
  "(input = InNull \<or> input = InUndefined \<or> input = InOther \<longrightarrow>
      snd (upload env this input sp v c ct) = []
    \<and> (\<exists>err. fst (upload env this input sp v c ct) = Inl err))
   \<and> (normalizePath this sp False = Inr np \<longrightarrow>
        upload env this InOther sp v c ct = (Inl (Error ''Invalid input type for upload''), [])
      \<and> upload env this InNull sp v c ct = (Inl TypeError, [])
      \<and> upload env this InUndefined sp v c ct = (Inl TypeError, []))"
proof -
  have a1: "snd (upload env this input sp v c ct) = []
    \<and> (\<exists>err. fst (upload env this input sp v c ct) = Inl err)"
    if "input = InNull \<or> input = InUndefined \<or> input = InOther"
    using that by (cases "normalizePath this sp False") (auto simp: upload_def uploadSource_def)
  have a2: "upload env this InOther sp v c ct = (Inl (Error ''Invalid input type for upload''), [])
      \<and> upload env this InNull sp v c ct = (Inl TypeError, [])
      \<and> upload env this InUndefined sp v c ct = (Inl TypeError, [])"
    if "normalizePath this sp False = Inr np"
    using that by (simp add: upload_def uploadSource_def)
  from a1 a2 show ?thesis by blast
qed

theorem upload_invalid_input_witness:
  "normalizePath (BunnyCDNStorage ''zone'' ''key'' ''de'') ''/zone/f'' False = Inr ''zone/f''
   \<and> upload \<lparr>fetch = (\<lambda>r. Inl (Rejected ''offline'')), createReadStream = (\<lambda>f. Readable [] None)\<rparr>
        (BunnyCDNStorage ''zone'' ''key'' ''de'') InNull ''/zone/f'' False None '''' =
       (Inl TypeError, [])
   \<and> upload \<lparr>fetch = (\<lambda>r. Inl (Rejected ''offline'')), createReadStream = (\<lambda>f. Readable [] None)\<rparr>
        (BunnyCDNStorage ''zone'' ''key'' ''de'') InUndefined ''/zone/f'' False None '''' =
       (Inl TypeError, [])
   \<and> upload \<lparr>fetch = (\<lambda>r. Inl (Rejected ''offline'')), createReadStream = (\<lambda>f. Readable [] None)\<rparr>
        (BunnyCDNStorage ''zone'' ''key'' ''de'') InOther ''/zone/f'' False None '''' =
       (Inl (Error ''Invalid input type for upload''), [])
   \<and> TypeError \<noteq> Error ''Invalid input type for upload''
   \<and> snd (upload \<lparr>fetch = (\<lambda>r. Inl (Rejected ''offline'')), createReadStream = (\<lambda>f. Readable [] None)\<rparr>
        (BunnyCDNStorage ''zone'' ''key'' ''de'') InNull ''f.txt'' True None '''') = []"
proof -
  let ?c = "BunnyCDNStorage ''zone'' ''key'' ''de''"
  let ?e = "\<lparr>fetch = (\<lambda>r. Inl (Rejected ''offline'')), createReadStream = (\<lambda>f. Readable [] None)\<rparr>"
  have np: "normalizePath ?c ''/zone/f'' False = Inr ''zone/f''"
    by code_simp
  have h1: "InNull = InNull \<or> InNull = InUndefined \<or> InNull = InOther" by simp
  have ne: "TypeError \<noteq> Error ''Invalid input type for upload''" by simp
  note t2 = upload_invalid_input [where this = ?c and sp = "''/zone/f''" and np = "''zone/f''"
      and env = ?e and v = False and c = None and ct = "''''",
      THEN conjunct2, THEN mp, OF np]
  note t1 = upload_invalid_input [where this = ?c and sp = "''f.txt''" and input = InNull
      and env = ?e and v = True and c = None and ct = "''''",
      THEN conjunct1, THEN mp, OF h1]
  from np ne t1 t2 show ?thesis by blast
qed

text \<open>
  Claim C10.  Upload behaves on the empty checksum string as on \<open>null\<close>, for all arguments.
  With validation off, the request carries no \<open>Checksum\<close> header and a 400 answer gives the
  invalid-path error; with validation on, the digest is computed and sent.
\<close>

theorem upload_empty_checksum_as_null:
  assumes np: "normalizePath this sp False = Inr np"
    and src: "input = InString f \<and> s = createReadStream env f \<and> evs = [OpenedFile f]
              \<or> input = InStream s \<and> evs = []"
  shows "upload env' this' input' sp' v (Some '''') ct = upload env' this' input' sp' v None ct
    \<and> snd (upload env this input sp False (Some '''') ct) =
          evs @ [Requested
                   \<lparr>url = baseAddress this @ np, httpMethod = ''PUT'',
                    headers = [(''AccessKey'', apiAccessKey this)]
                      @ (if ct \<noteq> [] then [(''Override-Content-Type'', ct)] else []),
                    body = Some s, duplex = Some ''half''\<rparr>]
    \<and> ((\<forall>req. fetch env req = Inr resp) \<and> status resp = 400 \<longrightarrow>
          fst (upload env this input sp False (Some '''') ct) =
            Inl (Error ''Unable to upload file. Invalid path specified''))
    \<and> (failure s = None \<longrightarrow>
          snd (upload env this input sp True (Some '''') ct) =
            evs @ [Buffered (concat (chunks s)),
                   Requested
                     \<lparr>url = baseAddress this @ np, httpMethod = ''PUT'',
                      headers = [(''AccessKey'', apiAccessKey this),
                                 (''Checksum'', sha256_hex (concat (chunks s)))]
                        @ (if ct \<noteq> [] then [(''Override-Content-Type'', ct)] else []),
                      body = Some (Readable [concat (chunks s)] None),
                      duplex = Some ''half''\<rparr>])"
proof -
  note us = uploadSource_readable[OF src]
  have nt: "\<not> truthy (Some '''')" by (simp add: truthy_def)
  have a1: "upload env' this' input' sp' v (Some '''') ct = upload env' this' input' sp' v None ct"
    by (simp add: upload_def uploadChecksum_def truthy_def uploadRequest_def Let_def
        split: sum.splits prod.splits)
  have a2: "snd (upload env this input sp False (Some '''') ct) =
          evs @ [Requested
                   \<lparr>url = baseAddress this @ np, httpMethod = ''PUT'',
                    headers = [(''AccessKey'', apiAccessKey this)]
                      @ (if ct \<noteq> [] then [(''Override-Content-Type'', ct)] else []),
                    body = Some s, duplex = Some ''half''\<rparr>]"
    using upload_trace[OF np us uploadChecksum_keep, of False "Some ''''" ct]
    by (simp add: uploadRequest_def)
  have a3: "fst (upload env this input sp False (Some '''') ct) =
            Inl (Error ''Unable to upload file. Invalid path specified'')"
    if h: "(\<forall>req. fetch env req = Inr resp) \<and> status resp = 400"
  proof -
    from h have stub: "\<And>req. fetch env req = Inr resp" by simp
    from h nt upload_run[OF np us uploadChecksum_keep stub, of False "Some ''''" ct]
    show ?thesis by (simp add: ok_def mapResponseToException_def)
  qed
  have a4: "snd (upload env this input sp True (Some '''') ct) =
            evs @ [Buffered (concat (chunks s)),
                   Requested
                     \<lparr>url = baseAddress this @ np, httpMethod = ''PUT'',
                      headers = [(''AccessKey'', apiAccessKey this),
                                 (''Checksum'', sha256_hex (concat (chunks s)))]
                        @ (if ct \<noteq> [] then [(''Override-Content-Type'', ct)] else []),
                      body = Some (Readable [concat (chunks s)] None),
                      duplex = Some ''half''\<rparr>]"
    if rd: "failure s = None"
  proof -
    have nonempty: "sha256_hex (concat (chunks s)) \<noteq> []"
      using length_sha256_hex[of "concat (chunks s)"] by auto
    from upload_trace[OF np us uploadChecksum_compute[OF _ nt rd], of True ct] nonempty
    show ?thesis by (simp add: uploadRequest_def PassThrough_end_def)
  qed
  from a1 a2 a3 a4 show ?thesis by blast
qed

theorem upload_empty_checksum_as_null_witness:
  "normalizePath (BunnyCDNStorage ''zone'' ''key'' ''de'') ''/zone/f'' False = Inr ''zone/f''
   \<and> upload \<lparr>fetch = (\<lambda>r. Inr \<lparr>status = 400, jsonResult = Inr JNull,
                                   bodyStream = Readable [] None\<rparr>),
              createReadStream = (\<lambda>f. Readable [] None)\<rparr>
        (BunnyCDNStorage ''zone'' ''key'' ''de'') (InStream (Readable [[1]] None))
        ''/zone/f'' True (Some '''') '''' =
      upload \<lparr>fetch = (\<lambda>r. Inr \<lparr>status = 400, jsonResult = Inr JNull,
                                   bodyStream = Readable [] None\<rparr>),
              createReadStream = (\<lambda>f. Readable [] None)\<rparr>
        (BunnyCDNStorage ''zone'' ''key'' ''de'') (InStream (Readable [[1]] None))
        ''/zone/f'' True None ''''
   \<and> upload \<lparr>fetch = (\<lambda>r. Inr \<lparr>status = 400, jsonResult = Inr JNull,
                                   bodyStream = Readable [] None\<rparr>),
              createReadStream = (\<lambda>f. Readable [] None)\<rparr>
        (BunnyCDNStorage ''zone'' ''key'' ''de'') (InStream (Readable [[1]] None))
        ''/zone/f'' False (Some '''') '''' =
      (Inl (Error ''Unable to upload file. Invalid path specified''),
       [Requested
          \<lparr>url = ''https://storage.bunnycdn.com/zone/f'', httpMethod = ''PUT'',
           headers = [(''AccessKey'', ''key'')],
           body = Some (Readable [[1]] None), duplex = Some ''half''\<rparr>])"
proof -
  let ?c = "BunnyCDNStorage ''zone'' ''key'' ''de''"
  let ?s = "Readable [[1]] None"
  let ?r400 = "\<lparr>status = 400, jsonResult = Inr JNull, bodyStream = Readable [] None\<rparr>"
  let ?e400 = "\<lparr>fetch = (\<lambda>r. Inr ?r400), createReadStream = (\<lambda>f. Readable [] None)\<rparr>"
  have np: "normalizePath ?c ''/zone/f'' False = Inr ''zone/f''"
    by code_simp
  have src: "InStream ?s = InString [] \<and> ?s = createReadStream env [] \<and> [] = [OpenedFile []]
             \<or> InStream ?s = InStream ?s \<and> [] = []" for env
    by simp
  have stub: "(\<forall>req. fetch ?e400 req = Inr ?r400) \<and> status ?r400 = 400" by simp
  have base: "baseAddress ?c = ''https://storage.bunnycdn.com/''"
    by code_simp
  have key: "apiAccessKey ?c = ''key''"
    by (simp add: BunnyCDNStorage_def)
  note t = upload_empty_checksum_as_null [OF np src, where env' = ?e400 and this' = ?c
      and input' = "InStream ?s" and sp' = "''/zone/f''" and v = True and ct = "''''"
      and resp = ?r400]
  note t1 = t [THEN conjunct1]
  note t2 = t [THEN conjunct2, THEN conjunct1]
  note t3 = t [THEN conjunct2, THEN conjunct2, THEN conjunct1, THEN mp, OF stub]
  have "upload ?e400 ?c (InStream ?s) ''/zone/f'' False (Some '''') '''' =
      (Inl (Error ''Unable to upload file. Invalid path specified''),
       [Requested
          \<lparr>url = ''https://storage.bunnycdn.com/zone/f'', httpMethod = ''PUT'',
           headers = [(''AccessKey'', ''key'')],
           body = Some ?s, duplex = Some ''half''\<rparr>])"
    using t2 t3 by (simp add: base key prod_eq_iff)
  with np t1 show ?thesis by blast
qed

section \<open>Delete\<close>



end
